theory Spec2Isabelle
  imports Main "HOL-Library.AList"
begin

section \<open>Strings and values of the host language\<close>

text \<open>
  The program is JavaScript. A string is modelled as a \<^typ>\<open>string\<close>; one \<^typ>\<open>char\<close> stands
  for one code unit in the range 0 to 255. A number is kept as the numeric text it was read
  from (\<open>JNum\<close>): its floating-point value is not computed, only whether it is zero
  (\<open>num_truthy\<close>). An object is an association list in insertion order (the host
  language lists integer-like keys first; nothing below depends on the order of the keys).
\<close>

datatype jsval =
    JUndefined
  | JNull
  | JBool bool
  | JNum string
  | JStr string
  | JArr "jsval list"
  | JObj "(string \<times> jsval) list"

text \<open>White space as \<open>String.prototype.trim\<close> and the class \<open>\s\<close> see it (below code unit 256).\<close>

definition is_space :: "char \<Rightarrow> bool" where
  "is_space c = (c \<in> set [CHR 0x09, CHR 0x0A, CHR 0x0B, CHR 0x0C, CHR 0x0D, CHR 0x20, CHR 0xA0])"

definition is_digit :: "char \<Rightarrow> bool" where
  "is_digit c = (48 \<le> (of_char c :: nat) \<and> (of_char c :: nat) \<le> 57)"

text \<open>The class \<open>\w\<close>: ASCII letters, digits and the underscore.\<close>

definition is_word :: "char \<Rightarrow> bool" where
  "is_word c = (let n = (of_char c :: nat) in
     (48 \<le> n \<and> n \<le> 57) \<or> (65 \<le> n \<and> n \<le> 90) \<or> (97 \<le> n \<and> n \<le> 122) \<or> n = 95)"

definition trim :: "string \<Rightarrow> string" where
  "trim s = rev (dropWhile is_space (rev (dropWhile is_space s)))"

text \<open>The upper-case letters below code unit 256 and their lower-case forms.\<close>

definition upper_letters :: string where
  "upper_letters = ''ABCDEFGHIJKLMNOPQRSTUVWXYZ'' @
     [CHR 0xC0, CHR 0xC1, CHR 0xC2, CHR 0xC3, CHR 0xC4, CHR 0xC5, CHR 0xC6, CHR 0xC7, CHR 0xC8, CHR 0xC9,
      CHR 0xCA, CHR 0xCB, CHR 0xCC, CHR 0xCD, CHR 0xCE, CHR 0xCF, CHR 0xD0, CHR 0xD1, CHR 0xD2, CHR 0xD3,
      CHR 0xD4, CHR 0xD5, CHR 0xD6, CHR 0xD8, CHR 0xD9, CHR 0xDA, CHR 0xDB, CHR 0xDC, CHR 0xDD, CHR 0xDE]"

definition lower_letters :: string where
  "lower_letters = ''abcdefghijklmnopqrstuvwxyz'' @
     [CHR 0xE0, CHR 0xE1, CHR 0xE2, CHR 0xE3, CHR 0xE4, CHR 0xE5, CHR 0xE6, CHR 0xE7, CHR 0xE8, CHR 0xE9,
      CHR 0xEA, CHR 0xEB, CHR 0xEC, CHR 0xED, CHR 0xEE, CHR 0xEF, CHR 0xF0, CHR 0xF1, CHR 0xF2, CHR 0xF3,
      CHR 0xF4, CHR 0xF5, CHR 0xF6, CHR 0xF8, CHR 0xF9, CHR 0xFA, CHR 0xFB, CHR 0xFC, CHR 0xFD, CHR 0xFE]"

definition lower_char :: "char \<Rightarrow> char" where
  "lower_char c = (case map_of (zip upper_letters lower_letters) c of Some l \<Rightarrow> l | None \<Rightarrow> c)"

definition toLowerCase :: "string \<Rightarrow> string" where
  "toLowerCase s = map lower_char s"

definition startsWith :: "string \<Rightarrow> string \<Rightarrow> bool" where
  "startsWith s p = (take (length p) s = p)"

definition endsWith :: "string \<Rightarrow> string \<Rightarrow> bool" where
  "endsWith s p = (length p \<le> length s \<and> drop (length s - length p) s = p)"

text \<open>\<open>s.substring(a, b)\<close>: the bounds are clamped to the length and swapped when \<open>a > b\<close>.\<close>

definition substring :: "nat \<Rightarrow> nat \<Rightarrow> string \<Rightarrow> string" where
  "substring a b s =
     (let a' = min a (length s); b' = min b (length s); lo = min a' b'; hi = max a' b'
      in take (hi - lo) (drop lo s))"

text \<open>
  \<open>String(n)\<close> for an integer \<open>n\<close>: its decimal digits. \<open>digit_char\<close> is only applied
  to a number below 10.
\<close>

definition digit_char :: "nat \<Rightarrow> char" where
  "digit_char n = ''0123456789'' ! n"

fun digits_of :: "nat \<Rightarrow> string" where
  "digits_of n = (if n < 10 then [digit_char n] else digits_of (n div 10) @ [digit_char (n mod 10)])"

declare digits_of.simps [simp del]

definition String_int :: "int \<Rightarrow> string" where
  "String_int i = (if i < 0 then CHR ''-'' # digits_of (nat (- i)) else digits_of (nat i))"

section \<open>Regular expressions\<close>

text \<open>
  The regular expressions of the source are written as terms of \<open>re\<close> and run by a
  backtracking matcher with the priorities of the host language: the left alternative
  first, a greedy quantifier takes an iteration before it continues, a lazy one
  continues before it takes an iteration, and an iteration that consumes nothing is
  rejected. \<open>Guard\<close> and \<open>Close\<close> are the marks the matcher leaves on its
  continuation; they do not occur in a pattern.
\<close>

datatype re =
    Chr "char \<Rightarrow> bool"
  | Seq re re
  | Alt re re
  | Star re
  | Lazy re
  | Grp nat re
  | Look re
  | Eps
  | Eos
  | Guard nat
  | Close nat string

type_synonym caps = "(nat \<times> string) list"

text \<open>
  The size of a pattern and of a continuation, for the termination of the matcher: behind
  a \<open>Guard\<close> that the current string cannot pass, nothing counts.
\<close>

fun wt :: "re \<Rightarrow> nat" where
  "wt (Chr p) = 1"
| "wt (Seq a b) = wt a + wt b + 1"
| "wt (Alt a b) = wt a + wt b + 1"
| "wt (Star a) = wt a + 3"
| "wt (Lazy a) = wt a + 3"
| "wt (Grp i a) = wt a + 2"
| "wt (Look a) = wt a + 1"
| "wt Eps = 1"
| "wt Eos = 1"
| "wt (Guard n) = 1"
| "wt (Close i s) = 1"

fun stack_wt :: "nat \<Rightarrow> re list \<Rightarrow> nat" where
  "stack_wt l [] = 0"
| "stack_wt l (Guard n # k) = (if n \<le> l then 1 else 1 + stack_wt l k)"
| "stack_wt l (r # k) = wt r + stack_wt l k"

lemma stack_wt_Cons: "stack_wt l (r # k) \<le> wt r + stack_wt l k"
  by (cases r) simp_all

lemma stack_wt_Cons2: "stack_wt l (a # b # k) \<le> wt a + wt b + stack_wt l k"
  using stack_wt_Cons [of l a "b # k"] stack_wt_Cons [of l b k] by linarith

text \<open>
  \<open>run k s c\<close> matches the patterns of the continuation \<open>k\<close> one after the other at
  the start of \<open>s\<close>, with the captures \<open>c\<close> so far, and returns the captures and
  the rest of the string of the first way to match, in priority order.
\<close>

function (sequential) run :: "re list \<Rightarrow> string \<Rightarrow> caps \<Rightarrow> (caps \<times> string) option" where
  "run [] s c = Some (c, s)"
| "run (Chr p # k) s c = (case s of [] \<Rightarrow> None | x # xs \<Rightarrow> if p x then run k xs c else None)"
| "run (Seq a b # k) s c = run (a # b # k) s c"
| "run (Alt a b # k) s c = (case run (a # k) s c of Some r \<Rightarrow> Some r | None \<Rightarrow> run (b # k) s c)"
| "run (Star a # k) s c =
     (case run (a # Guard (length s) # Star a # k) s c of Some r \<Rightarrow> Some r | None \<Rightarrow> run k s c)"
| "run (Lazy a # k) s c =
     (case run k s c of Some r \<Rightarrow> Some r | None \<Rightarrow> run (a # Guard (length s) # Lazy a # k) s c)"
| "run (Grp i a # k) s c = run (a # Close i s # k) s c"
| "run (Close i s0 # k) s c = run k s (AList.update i (take (length s0 - length s) s0) c)"
| "run (Look a # k) s c = (case run [a] s c of Some (c', _) \<Rightarrow> run k s c' | None \<Rightarrow> None)"
| "run (Eps # k) s c = run k s c"
| "run (Eos # k) s c = (if s = [] then run k s c else None)"
| "run (Guard n # k) s c = (if length s < n then run k s c else None)"
  by pat_completeness auto
termination
  by (relation "inv_image (less_than <*lex*> less_than) (\<lambda>(k, s, c). (length s, stack_wt (length s) k))")
     (auto intro: le_less_trans [OF stack_wt_Cons] le_less_trans [OF stack_wt_Cons2])

lemma run_length: "run k s c = Some (c', s') \<Longrightarrow> length s' \<le> length s"
proof (induction k s c arbitrary: c' s' rule: run.induct)
  case (1 s c)
  then show ?case by simp
next
  case (2 p k s c)
  show ?case
  proof (cases s)
    case Nil
    with "2.prems" show ?thesis by simp
  next
    case (Cons x xs)
    with "2.prems" have "p x" and "run k xs c = Some (c', s')"
      by (simp_all split: if_splits)
    with "2.IH" [OF Cons] have "length s' \<le> length xs" by blast
    with Cons show ?thesis by simp
  qed
next
  case (3 a b k s c)
  then show ?case by simp
next
  case (4 a b k s c)
  show ?case
  proof (cases "run (a # k) s c")
    case None
    with "4.prems" "4.IH"(2) show ?thesis by simp
  next
    case (Some r)
    with "4.prems" "4.IH"(1) show ?thesis by simp
  qed
next
  case (5 a k s c)
  show ?case
  proof (cases "run (a # Guard (length s) # Star a # k) s c")
    case None
    with "5.prems" "5.IH"(2) show ?thesis by simp
  next
    case (Some r)
    with "5.prems" "5.IH"(1) show ?thesis by simp
  qed
next
  case (6 a k s c)
  show ?case
  proof (cases "run k s c")
    case None
    with "6.prems" "6.IH"(2) show ?thesis by simp
  next
    case (Some r)
    with "6.prems" "6.IH"(1) show ?thesis by simp
  qed
next
  case (7 i a k s c)
  then show ?case by simp
next
  case (8 i s0 k s c)
  from "8.prems" have "run k s (AList.update i (take (length s0 - length s) s0) c) = Some (c', s')"
    by (simp only: run.simps)
  then show ?case by (rule "8.IH")
next
  case (9 a k s c)
  show ?case
  proof (cases "run [a] s c")
    case None
    with "9.prems" show ?thesis by simp
  next
    case (Some r)
    obtain c1 s1 where r: "r = (c1, s1)" by (cases r)
    with Some "9.prems" have "run k s c1 = Some (c', s')" by simp
    with "9.IH"(2) [OF Some r [symmetric]] show ?thesis by blast
  qed
next
  case (10 k s c)
  then show ?case by simp
next
  case (11 k s c)
  then show ?case by (simp split: if_splits)
next
  case (12 n k s c)
  then show ?case by (simp split: if_splits)
qed

text \<open>Pattern combinators: a literal text, one or more, optional, a sequence.\<close>

definition lit :: "string \<Rightarrow> re" where
  "lit s = foldr (\<lambda>c r. Seq (Chr (\<lambda>x. x = c)) r) s Eps"

text \<open>A literal under the flag \<open>i\<close>: ASCII letters match in either case.\<close>

definition lit_ci :: "string \<Rightarrow> re" where
  "lit_ci s = foldr (\<lambda>c r. Seq (Chr (\<lambda>x. lower_char x = lower_char c \<and> (of_char x :: nat) < 128)) r) s Eps"

definition rplus :: "re \<Rightarrow> re" where
  "rplus r = Seq r (Star r)"

definition lazy_plus :: "re \<Rightarrow> re" where
  "lazy_plus r = Seq r (Lazy r)"

definition ropt :: "re \<Rightarrow> re" where
  "ropt r = Alt r Eps"

definition seqs :: "re list \<Rightarrow> re" where
  "seqs rs = foldr Seq rs Eps"

definition any_char :: "char \<Rightarrow> bool" where
  "any_char c = True"

definition one_of :: "string \<Rightarrow> char \<Rightarrow> bool" where
  "one_of cs c = (c \<in> set cs)"

definition none_of :: "string \<Rightarrow> char \<Rightarrow> bool" where
  "none_of cs c = (c \<notin> set cs)"

text \<open>
  \<open>search r s\<close> is the leftmost match of \<open>r\<close> in \<open>s\<close>: the text before the match, the
  captures, and the text after the match.
\<close>

fun search :: "re \<Rightarrow> string \<Rightarrow> (string \<times> caps \<times> string) option" where
  "search r [] = (case run [r] [] [] of Some (c, s') \<Rightarrow> Some ([], c, s') | None \<Rightarrow> None)"
| "search r (x # xs) =
     (case run [r] (x # xs) [] of
        Some (c, s') \<Rightarrow> Some ([], c, s')
      | None \<Rightarrow> (case search r xs of Some (p, c, s') \<Rightarrow> Some (x # p, c, s') | None \<Rightarrow> None))"

lemma search_length: "search r s = Some (p, c, s') \<Longrightarrow> length p + length s' \<le> length s"
proof (induction s arbitrary: p c s')
  case Nil
  then show ?case by (auto split: option.splits dest: run_length)
next
  case (Cons x xs)
  then show ?case by (fastforce split: option.splits dest: run_length)
qed

text \<open>The capture groups that every match of a pattern fills.\<close>

fun sure :: "re \<Rightarrow> nat set" where
  "sure (Grp i a) = insert i (sure a)"
| "sure (Seq a b) = sure a \<union> sure b"
| "sure (Alt a b) = sure a \<inter> sure b"
| "sure (Look a) = sure a"
| "sure (Close i s) = {i}"
| "sure r = {}"

text \<open>The text of capture group \<open>i\<close> in a replacement (\<open>$i\<close>): empty when the group took no part.\<close>

definition capstr :: "caps \<Rightarrow> nat \<Rightarrow> string" where
  "capstr c i = (case map_of c i of Some t \<Rightarrow> t | None \<Rightarrow> [])"

text \<open>\<open>s.replace(r, f)\<close> for a pattern without the flag \<open>g\<close>: the first match only.\<close>

definition replace_first :: "re \<Rightarrow> (caps \<Rightarrow> string) \<Rightarrow> string \<Rightarrow> string" where
  "replace_first r f s = (case search r s of None \<Rightarrow> s | Some (p, c, s') \<Rightarrow> p @ f c @ s')"

text \<open>
  \<open>s.replace(r, f)\<close> for a pattern with the flag \<open>g\<close>: every match from left to right;
  after an empty match the next code unit is copied and the scan goes on behind it.
\<close>

function replace_all :: "re \<Rightarrow> (caps \<Rightarrow> string) \<Rightarrow> string \<Rightarrow> string" where
  "replace_all r f s =
     (case search r s of
        None \<Rightarrow> s
      | Some (p, c, s') \<Rightarrow>
          if length s' < length s - length p then p @ f c @ replace_all r f s'
          else (case s' of [] \<Rightarrow> p @ f c | x # xs \<Rightarrow> p @ f c @ x # replace_all r f xs))"
  by pat_completeness auto
termination
  by (relation "measure (\<lambda>(r, f, s). length s)") (auto dest: search_length)

declare replace_all.simps [simp del]

section \<open>\<open>JSON.parse\<close>\<close>

text \<open>
  The library function \<open>JSON.parse\<close>, from the JSON grammar: a tokenizer, then a
  parser with an explicit stack of the open arrays and objects. \<open>None\<close> is the
  \<open>SyntaxError\<close> it throws. A repeated key keeps its first position and its last value.
  An escape \<open>\uXXXX\<close> above code unit 255 is outside the strings of this model and is
  refused.
\<close>

datatype tok = TLBrace | TRBrace | TLBrack | TRBrack | TColon | TComma | TStr string | TAtom jsval

datatype lexst = LIdle | LBare string | LStr string | LEsc string | LUni string string

text \<open>A JSON number: \<open>-?(0|[1-9]\d*)(\.\d+)?([eE][+-]?\d+)?\<close>.\<close>

definition json_number :: re where
  "json_number = seqs [
     ropt (lit ''-''),
     Alt (lit ''0'') (Seq (Chr (one_of ''123456789'')) (Star (Chr is_digit))),
     ropt (Seq (lit ''.'') (rplus (Chr is_digit))),
     ropt (seqs [Chr (one_of ''eE''), ropt (Chr (one_of ''+-'')), rplus (Chr is_digit)])]"

definition full_match :: "re \<Rightarrow> string \<Rightarrow> bool" where
  "full_match r s = (run [r, Eos] s [] \<noteq> None)"

definition bare_tok :: "string \<Rightarrow> tok option" where
  "bare_tok w =
     (if w = ''true'' then Some (TAtom (JBool True))
      else if w = ''false'' then Some (TAtom (JBool False))
      else if w = ''null'' then Some (TAtom JNull)
      else if full_match json_number w then Some (TAtom (JNum w))
      else None)"

definition is_bare :: "char \<Rightarrow> bool" where
  "is_bare c = (is_word c \<or> c \<in> set ''+-.'')"

definition is_hex :: "char \<Rightarrow> bool" where
  "is_hex c = (c \<in> set ''0123456789abcdefABCDEF'')"

definition hex_digit :: "char \<Rightarrow> nat" where
  "hex_digit c = (let n = (of_char c :: nat) in
     if n \<le> 57 then n - 48 else if n \<le> 70 then n - 55 else n - 87)"

definition hex_value :: "string \<Rightarrow> nat" where
  "hex_value s = foldl (\<lambda>n c. 16 * n + hex_digit c) 0 s"

definition unescape :: "char \<Rightarrow> char option" where
  "unescape c =
     (if c = CHR 0x22 then Some (CHR 0x22)
      else if c = CHR 0x5C then Some (CHR 0x5C)
      else if c = CHR ''/'' then Some (CHR ''/'')
      else if c = CHR ''b'' then Some (CHR 0x08)
      else if c = CHR ''f'' then Some (CHR 0x0C)
      else if c = CHR ''n'' then Some (CHR 0x0A)
      else if c = CHR ''r'' then Some (CHR 0x0D)
      else if c = CHR ''t'' then Some (CHR 0x09)
      else None)"

definition cons_tok :: "tok \<Rightarrow> tok list option \<Rightarrow> tok list option" where
  "cons_tok t r = (case r of None \<Rightarrow> None | Some ts \<Rightarrow> Some (t # ts))"

function (sequential) json_lex :: "lexst \<Rightarrow> string \<Rightarrow> tok list option" where
  "json_lex LIdle [] = Some []"
| "json_lex LIdle (c # cs) =
     (if c \<in> set [CHR 0x09, CHR 0x0A, CHR 0x0D, CHR 0x20] then json_lex LIdle cs
      else if c = CHR ''{'' then cons_tok TLBrace (json_lex LIdle cs)
      else if c = CHR ''}'' then cons_tok TRBrace (json_lex LIdle cs)
      else if c = CHR ''['' then cons_tok TLBrack (json_lex LIdle cs)
      else if c = CHR '']'' then cons_tok TRBrack (json_lex LIdle cs)
      else if c = CHR '':'' then cons_tok TColon (json_lex LIdle cs)
      else if c = CHR '','' then cons_tok TComma (json_lex LIdle cs)
      else if c = CHR 0x22 then json_lex (LStr []) cs
      else if is_bare c then json_lex (LBare [c]) cs
      else None)"
| "json_lex (LBare w) [] = (case bare_tok (rev w) of None \<Rightarrow> None | Some t \<Rightarrow> Some [t])"
| "json_lex (LBare w) (c # cs) =
     (if is_bare c then json_lex (LBare (c # w)) cs
      else (case bare_tok (rev w) of None \<Rightarrow> None | Some t \<Rightarrow> cons_tok t (json_lex LIdle (c # cs))))"
| "json_lex (LStr a) [] = None"
| "json_lex (LStr a) (c # cs) =
     (if c = CHR 0x22 then cons_tok (TStr (rev a)) (json_lex LIdle cs)
      else if c = CHR 0x5C then json_lex (LEsc a) cs
      else if (of_char c :: nat) < 32 then None
      else json_lex (LStr (c # a)) cs)"
| "json_lex (LEsc a) [] = None"
| "json_lex (LEsc a) (c # cs) =
     (if c = CHR ''u'' then json_lex (LUni a []) cs
      else (case unescape c of None \<Rightarrow> None | Some d \<Rightarrow> json_lex (LStr (d # a)) cs))"
| "json_lex (LUni a h) [] = None"
| "json_lex (LUni a h) (c # cs) =
     (if \<not> is_hex c then None
      else if length h < 3 then json_lex (LUni a (c # h)) cs
      else (let n = hex_value (rev (c # h)) in
            if n < 256 then json_lex (LStr (char_of n # a)) cs else None))"
  by pat_completeness auto
termination
  by (relation "measure (\<lambda>(st, s). 2 * length s + (case st of LBare w \<Rightarrow> 1 | _ \<Rightarrow> 0))") auto

datatype frame = FArr "jsval list" | FObj "(string \<times> jsval) list" string

text \<open>
  \<open>json_value\<close> expects a value; \<open>json_after\<close> has read the value \<open>v\<close> and closes
  or continues the innermost open array or object.
\<close>

fun json_value :: "frame list \<Rightarrow> tok list \<Rightarrow> jsval option"
  and json_after :: "frame list \<Rightarrow> jsval \<Rightarrow> tok list \<Rightarrow> jsval option" where
  "json_value st [] = None"
| "json_value st (t # ts) =
     (case t of
        TAtom v \<Rightarrow> json_after st v ts
      | TStr s \<Rightarrow> json_after st (JStr s) ts
      | TLBrack \<Rightarrow>
          (case ts of
             [] \<Rightarrow> None
           | u # us \<Rightarrow> if u = TRBrack then json_after st (JArr []) us else json_value (FArr [] # st) ts)
      | TLBrace \<Rightarrow>
          (case ts of
             [] \<Rightarrow> None
           | u # us \<Rightarrow>
               (case u of
                  TRBrace \<Rightarrow> json_after st (JObj []) us
                | TStr k \<Rightarrow>
                    (case us of
                       [] \<Rightarrow> None
                     | w # ws \<Rightarrow> if w = TColon then json_value (FObj [] k # st) ws else None)
                | _ \<Rightarrow> None))
      | _ \<Rightarrow> None)"
| "json_after [] v ts = (if ts = [] then Some v else None)"
| "json_after (f # st) v [] = None"
| "json_after (f # st) v (t # ts) =
     (case f of
        FArr acc \<Rightarrow>
          (if t = TComma then json_value (FArr (v # acc) # st) ts
           else if t = TRBrack then json_after st (JArr (rev (v # acc))) ts
           else None)
      | FObj acc k \<Rightarrow>
          (if t = TRBrace then json_after st (JObj (AList.update k v acc)) ts
           else if t = TComma then
             (case ts of
                [] \<Rightarrow> None
              | u # us \<Rightarrow>
                  (case u of
                     TStr k' \<Rightarrow>
                       (case us of
                          [] \<Rightarrow> None
                        | w # ws \<Rightarrow>
                            if w = TColon then json_value (FObj (AList.update k v acc) k' # st) ws
                            else None)
                   | _ \<Rightarrow> None))
           else None))"

definition JSON_parse :: "string \<Rightarrow> jsval option" where
  "JSON_parse s = (case json_lex LIdle s of None \<Rightarrow> None | Some ts \<Rightarrow> json_value [] ts)"

section \<open>Numbers and truthiness\<close>

text \<open>
  \<open>Number(s)\<close> is \<open>NaN\<close> unless the trimmed text is empty (the number 0) or a numeric
  literal: a signed decimal with optional fraction and exponent, \<open>Infinity\<close>, or an
  unsigned hexadecimal, octal or binary integer.
\<close>

definition exponent_part :: re where
  "exponent_part = seqs [Chr (one_of ''eE''), ropt (Chr (one_of ''+-'')), rplus (Chr is_digit)]"

definition str_decimal :: re where
  "str_decimal =
     Alt (seqs [rplus (Chr is_digit), ropt (Seq (lit ''.'') (Star (Chr is_digit))), ropt exponent_part])
         (seqs [lit ''.'', rplus (Chr is_digit), ropt exponent_part])"

definition str_numeric :: re where
  "str_numeric =
     Alt (Seq (ropt (Chr (one_of ''+-''))) (Alt (lit ''Infinity'') str_decimal))
    (Alt (seqs [lit ''0'', Chr (one_of ''xX''), rplus (Chr is_hex)])
    (Alt (seqs [lit ''0'', Chr (one_of ''oO''), rplus (Chr (one_of ''01234567''))])
         (seqs [lit ''0'', Chr (one_of ''bB''), rplus (Chr (one_of ''01''))])))"

definition Number_isNaN :: "string \<Rightarrow> bool" where
  "Number_isNaN s = (let t = trim s in t \<noteq> [] \<and> \<not> full_match str_numeric t)"

definition split_at :: "(char \<Rightarrow> bool) \<Rightarrow> string \<Rightarrow> string \<times> string" where
  "split_at p s = (takeWhile (\<lambda>c. \<not> p c) s, drop 1 (dropWhile (\<lambda>c. \<not> p c) s))"

definition dec_value :: "string \<Rightarrow> nat" where
  "dec_value s = foldl (\<lambda>n c. 10 * n + ((of_char c :: nat) - 48)) 0 s"

text \<open>
  Whether the number written \<open>s\<close> is truthy: neither \<open>NaN\<close> nor zero. A decimal
  \<open>M \<times> 10\<^sup>E\<close> is the double zero when \<open>M = 0\<close> or when it is at most \<open>2\<^sup>-\<^sup>1\<^sup>0\<^sup>7\<^sup>5\<close>, half
  of the smallest positive double.
\<close>

definition num_truthy :: "string \<Rightarrow> bool" where
  "num_truthy s =
     (let t = trim s; u = dropWhile (one_of ''+-'') (take 1 t) @ drop 1 t in
      if t = [] \<or> \<not> full_match str_numeric t then False
      else if u = ''Infinity'' then True
      else if 2 \<le> length u \<and> u ! 1 \<in> set ''xXoObB'' then list_ex (\<lambda>c. c \<noteq> CHR ''0'') (drop 2 u)
      else
        (let (m, e) = split_at (one_of ''eE'') u;
             (ip, fp) = split_at (\<lambda>c. c = CHR ''.'') m;
             M = dec_value (ip @ fp);
             ex = (case e of
                     [] \<Rightarrow> 0
                   | c # cs \<Rightarrow> if c = CHR ''-'' then - int (dec_value cs)
                               else if c = CHR ''+'' then int (dec_value cs)
                               else int (dec_value e));
             E = ex - int (length fp)
         in M \<noteq> 0 \<and> (0 \<le> E \<or> (10::int) ^ nat (- E) < int M * 2 ^ 1075)))"

fun truthy :: "jsval \<Rightarrow> bool" where
  "truthy JUndefined = False"
| "truthy JNull = False"
| "truthy (JBool b) = b"
| "truthy (JNum s) = num_truthy s"
| "truthy (JStr s) = (s \<noteq> [])"
| "truthy (JArr xs) = True"
| "truthy (JObj kvs) = True"

text \<open>
  Reading a property: \<open>undefined\<close> when the value has no such key. The keys this
  program reads are not properties of strings, arrays or the built-in prototypes.
\<close>

definition get_field :: "jsval \<Rightarrow> string \<Rightarrow> jsval" where
  "get_field v k =
     (case v of
        JObj kvs \<Rightarrow> (case map_of kvs k of Some x \<Rightarrow> x | None \<Rightarrow> JUndefined)
      | _ \<Rightarrow> JUndefined)"

text \<open>
  \<open>obj[key] = v\<close> on an object literal for a primitive \<open>v\<close>: a new own property, except
  for the key \<open>__proto__\<close>, whose setter ignores a primitive.
\<close>

definition set_prop :: "string \<Rightarrow> jsval \<Rightarrow> (string \<times> jsval) list \<Rightarrow> (string \<times> jsval) list" where
  "set_prop k v obj = (if k = ''__proto__'' then obj else AList.update k v obj)"

section \<open>The string-input adapter (\<open>react-tool-adapter.js\<close>)\<close>

datatype exn =
    TypeError
  | EmptyContentError
  | SaveInputError exn

text \<open>
  \<open>EmptyContentError\<close> is the error "document save failed: the content is empty";
  \<open>SaveInputError e\<close> is the error "parsing the input of SaveDocumentTool failed: " followed
  by the message of \<open>e\<close> and the expected format
  \<open>{"folderType": "output", "fileName": "example.md", "content": ...}\<close>.
\<close>

text \<open>The return point of \<open>_parseStringToJson\<close> that produced the result, as its log line tells it.\<close>

datatype step =
    NotAString
  | EmptyInput
  | StandardJson
  | CleanedJson
  | KeyValueText
  | RequirementAnalysis
  | ExternalDesign
  | SaveDocumentJson
  | SaveDocumentRegex
  | WrappedInput
  | UnexpectedError

text \<open>
  The argument of \<open>_parseStringToJson\<close>: a string, \<open>null\<close>, \<open>undefined\<close>, a value whose
  \<open>typeof\<close> is \<open>object\<close>, or any other value, given by the string \<open>String(input)\<close> makes of it.
\<close>

datatype payload = PString string | PNull | PUndefined | PObject jsval | POther string

text \<open>\<open>m[i].trim()\<close> on a match \<open>m\<close>: a \<open>TypeError\<close> when group \<open>i\<close> took no part.\<close>

definition group_trim :: "caps \<Rightarrow> nat \<Rightarrow> exn + string" where
  "group_trim c i = (case map_of c i of Some t \<Rightarrow> Inr (trim t) | None \<Rightarrow> Inl TypeError)"

text \<open>\<open>/```(?:json)?(.+?)```/s\<close>\<close>

definition codeBlockRegex :: re where
  "codeBlockRegex = seqs [lit ''```'', ropt (lit ''json''), Grp 1 (lazy_plus (Chr any_char)), lit ''```'']"

text \<open>The class \<open>[\s`'"]\<close>.\<close>

definition wrap_char :: "char \<Rightarrow> bool" where
  "wrap_char c = (is_space c \<or> c \<in> set [CHR 0x60, CHR 0x27, CHR 0x22])"

text \<open>\<open>s.replace(/^r/, '')\<close>: the pattern can only match at the start.\<close>

definition strip_start :: "re \<Rightarrow> string \<Rightarrow> string" where
  "strip_start r s = (case run [r] s [] of None \<Rightarrow> s | Some (c, s') \<Rightarrow> s')"

text \<open>\<open>/(\w+)(?=\s*:)/g\<close> and \<open>/,(\s*[}\]])/g\<close>\<close>

definition propertyNameRegex :: re where
  "propertyNameRegex = Seq (Grp 1 (rplus (Chr is_word))) (Look (Seq (Star (Chr is_space)) (lit '':'')))"

definition trailingCommaRegex :: re where
  "trailingCommaRegex = Seq (lit '','') (Grp 1 (Seq (Star (Chr is_space)) (Chr (one_of ''}]''))))"

text \<open>Lines 167 to 186: the cleaned text that is parsed a second time.\<close>

definition jsonFixed :: "string \<Rightarrow> exn + string" where
  "jsonFixed input =
     (case (case search codeBlockRegex input of
              None \<Rightarrow> Inr input
            | Some (p, c, s') \<Rightarrow> group_trim c 1) of
        Inl e \<Rightarrow> Inl e
      | Inr cleaned0 \<Rightarrow>
          (let cleanedInput =
                 replace_first (Seq (Star (Chr wrap_char)) Eos) (\<lambda>c. [])
                   (strip_start (Star (Chr wrap_char)) cleaned0);
               fixed1 = replace_all (lit [CHR 0x27]) (\<lambda>c. [CHR 0x22]) cleanedInput;
               fixed2 = replace_all propertyNameRegex (\<lambda>c. [CHR 0x22] @ capstr c 1 @ [CHR 0x22]) fixed1;
               fixed3 = replace_all trailingCommaRegex (\<lambda>c. capstr c 1) fixed2
           in Inr fixed3))"

text \<open>\<open>/(\w+)\s*:\s*([^,]+)(?:,|$)/g\<close>\<close>

definition keyValueRegex :: re where
  "keyValueRegex = seqs [
     Grp 1 (rplus (Chr is_word)), Star (Chr is_space), lit '':'', Star (Chr is_space),
     Grp 2 (rplus (Chr (none_of '','')))
     , Alt (lit '','') Eos]"

text \<open>Lines 206 to 222: the typed value of the text after a key.\<close>

definition coerce_value :: "string \<Rightarrow> jsval" where
  "coerce_value v =
     (if toLowerCase v = ''true'' then JBool True
      else if toLowerCase v = ''false'' then JBool False
      else if \<not> Number_isNaN v \<and> trim v \<noteq> [] then JNum v
      else if (startsWith v [CHR 0x22] \<and> endsWith v [CHR 0x22]) \<or>
              (startsWith v [CHR 0x27] \<and> endsWith v [CHR 0x27])
           then JStr (substring 1 (length v - 1) v)
      else JStr v)"

text \<open>A pattern that starts with a character class consumes at least one code unit.\<close>

lemma run_Chr_shorter: "run (Chr p # k) s c = Some (c', s') \<Longrightarrow> length s' < length s"
proof (cases s)
  case Nil
  assume "run (Chr p # k) s c = Some (c', s')"
  with Nil show ?thesis by simp
next
  case (Cons x xs)
  assume "run (Chr p # k) s c = Some (c', s')"
  with Cons have "run k xs c = Some (c', s')" by (simp split: if_splits)
  then have "length s' \<le> length xs" by (rule run_length)
  with Cons show ?thesis by simp
qed

lemma keyValueRegex_shorter:
  assumes "run [keyValueRegex] s c = Some (c', s')"
  shows "length s' < length s"
proof -
  obtain k where "run [keyValueRegex] s c = run (Chr is_word # k) s c"
    by (simp only: keyValueRegex_def seqs_def rplus_def foldr.simps o_apply run.simps(3) run.simps(7))
  with assms have "run (Chr is_word # k) s c = Some (c', s')" by (simp only:)
  then show ?thesis by (rule run_Chr_shorter)
qed

lemma search_keyValueRegex_shorter:
  "search keyValueRegex s = Some (p, c, s') \<Longrightarrow> length s' < length s"
proof (induction s arbitrary: p c s')
  case Nil
  then show ?case by (auto split: option.splits dest: keyValueRegex_shorter)
next
  case (Cons x xs)
  show ?case
  proof (cases "run [keyValueRegex] (x # xs) []")
    case None
    with Cons.prems obtain p' where "search keyValueRegex xs = Some (p', c, s')"
      by (auto split: option.splits)
    then have "length s' < length xs" by (rule Cons.IH)
    then show ?thesis by simp
  next
    case (Some r)
    with Cons.prems have "run [keyValueRegex] (x # xs) [] = Some (c, s')"
      by (cases r) simp
    then show ?thesis by (rule keyValueRegex_shorter)
  qed
qed

text \<open>
  Lines 199 to 225: the loop \<open>while ((match = keyValueRegex.exec(input)) !== null)\<close>. Each
  round searches behind the last match; the pattern does not look back, so the search
  runs on the rest of the string. \<open>obj\<close> is \<open>result\<close>.
\<close>

function key_value_loop :: "(string \<times> jsval) list \<Rightarrow> string \<Rightarrow> exn + (string \<times> jsval) list" where
  "key_value_loop obj s =
     (case search keyValueRegex s of
        None \<Rightarrow> Inr obj
      | Some (p, c, s') \<Rightarrow>
          (case group_trim c 2 of
             Inl e \<Rightarrow> Inl e
           | Inr v \<Rightarrow>
               key_value_loop
                 (set_prop (case map_of c 1 of Some k \<Rightarrow> k | None \<Rightarrow> ''undefined'') (coerce_value v) obj)
                 s'))"
  by pat_completeness auto
termination
  by (relation "measure (\<lambda>(obj, s). length s)") (auto dest: search_keyValueRegex_shorter)

declare key_value_loop.simps [simp del]

text \<open>
  Lines 198 to 234: the extracted keys when there is at least one, else nothing; an
  exception in the loop is caught and logged, and the cascade goes on.
\<close>

definition key_value_text :: "string \<Rightarrow> (string \<times> jsval) list option" where
  "key_value_text input =
     (case key_value_loop [] input of
        Inl e \<Rightarrow> None
      | Inr obj \<Rightarrow> if 0 < length (map fst obj) then Some obj else None)"

text \<open>
  The four \<open>contentPatterns\<close>, in the order of the source:
  \<open>/content\s*:\s*["']([^]*?)["'](?:,|\s*\}|\s*$)/\<close>,
  \<open>/content\s*:\s*([^,\}]+)(?:,|\s*\}|\s*$)/s\<close>,
  \<open>/```(?:markdown|md)?\s*([^`]+)```/s\<close> and \<open>/(.+)/s\<close>.
\<close>

definition field_end :: re where
  "field_end = Alt (lit '','') (Alt (Seq (Star (Chr is_space)) (lit ''}'')) (Seq (Star (Chr is_space)) Eos))"

definition contentPatterns :: "re list" where
  "contentPatterns = [
     seqs [lit ''content'', Star (Chr is_space), lit '':'', Star (Chr is_space),
           Chr (one_of [CHR 0x22, CHR 0x27]), Grp 1 (Lazy (Chr any_char)),
           Chr (one_of [CHR 0x22, CHR 0x27]), field_end],
     seqs [lit ''content'', Star (Chr is_space), lit '':'', Star (Chr is_space),
           Grp 1 (rplus (Chr (none_of '',}''))), field_end],
     seqs [lit ''```'', ropt (Alt (lit ''markdown'') (lit ''md'')), Star (Chr is_space),
           Grp 1 (rplus (Chr (none_of ''`''))), lit ''```''],
     Grp 1 (rplus (Chr any_char))]"

text \<open>Lines 303 to 311: the trimmed group 1 of the first pattern that matches, else the empty string.\<close>

fun first_content :: "re list \<Rightarrow> string \<Rightarrow> exn + string" where
  "first_content [] input = Inr []"
| "first_content (r # rs) input =
     (case search r input of
        Some (p, c, s') \<Rightarrow> group_trim c 1
      | None \<Rightarrow> first_content rs input)"

text \<open>
  \<open>/folderType\s*:\s*["']?([^"',\}]+)["']?/\<close>, the same for \<open>fileName\<close>, and
  \<open>/overwrite\s*:\s*(true|false)/i\<close>.
\<close>

definition fieldRegex :: "string \<Rightarrow> re" where
  "fieldRegex name = seqs [lit name, Star (Chr is_space), lit '':'', Star (Chr is_space),
     ropt (Chr (one_of [CHR 0x22, CHR 0x27])),
     Grp 1 (rplus (Chr (none_of [CHR 0x22, CHR 0x27, CHR '','', CHR ''}'']))),
     ropt (Chr (one_of [CHR 0x22, CHR 0x27]))]"

definition overwriteRegex :: re where
  "overwriteRegex = seqs [lit_ci ''overwrite'', Star (Chr is_space), lit '':'', Star (Chr is_space),
     Grp 1 (Alt (lit_ci ''true'') (lit_ci ''false''))]"

text \<open>The default file name \<open>`document_${Date.now()}.md`\<close>; \<open>now\<close> is the clock in milliseconds.\<close>

definition default_fileName :: "int \<Rightarrow> string" where
  "default_fileName now = ''document_'' @ String_int now @ ''.md''"

text \<open>Lines 326 to 336: an auxiliary field that matched replaces the default.\<close>

definition set_matched :: "string \<Rightarrow> (string \<Rightarrow> jsval) \<Rightarrow> (string \<times> caps \<times> string) option \<Rightarrow>
    (string \<times> jsval) list \<Rightarrow> exn + (string \<times> jsval) list" where
  "set_matched key f m obj =
     (case m of
        None \<Rightarrow> Inr obj
      | Some (p, c, s') \<Rightarrow>
          (case map_of c 1 of
             None \<Rightarrow> Inl TypeError
           | Some t \<Rightarrow> Inr (AList.update key (f t) obj)))"

text \<open>Lines 339 to 345: the check of the extracted content.\<close>

definition validate_content :: "(string \<times> jsval) list \<Rightarrow> exn + jsval" where
  "validate_content obj =
     (case get_field (JObj obj) ''content'' of
        JStr t \<Rightarrow> if t = [] \<or> trim t = [] then Inl EmptyContentError else Inr (JObj obj)
      | v \<Rightarrow> if truthy v then Inl TypeError else Inl EmptyContentError)"

text \<open>Lines 283 to 345: the extraction by patterns.\<close>

definition save_document_regex :: "int \<Rightarrow> string \<Rightarrow> exn + jsval" where
  "save_document_regex now input =
     (case first_content contentPatterns input of
        Inl e \<Rightarrow> Inl e
      | Inr content \<Rightarrow>
          (let result0 = [(''folderType'', JStr ''output''),
                          (''fileName'', JStr (default_fileName now)),
                          (''content'', JStr (if content \<noteq> [] then content else input))]
           in case set_matched ''folderType'' (\<lambda>t. JStr (trim t)) (search (fieldRegex ''folderType'') input) result0 of
                Inl e \<Rightarrow> Inl e
              | Inr result1 \<Rightarrow>
                  (case set_matched ''fileName'' (\<lambda>t. JStr (trim t)) (search (fieldRegex ''fileName'') input) result1 of
                     Inl e \<Rightarrow> Inl e
                   | Inr result2 \<Rightarrow>
                       (case set_matched ''overwrite'' (\<lambda>t. JBool (toLowerCase t = ''true''))
                               (search overwriteRegex input) result2 of
                          Inl e \<Rightarrow> Inl e
                        | Inr result3 \<Rightarrow> validate_content result3))))"

text \<open>
  Lines 258 to 279: the input parsed as JSON once more. A parse error, and the
  \<open>TypeError\<close> of reading \<open>content\<close> from \<open>null\<close>, are caught; a value without a truthy
  \<open>content\<close> falls through. \<open>None\<close> is "go on with the patterns".
\<close>

definition save_document_json :: "int \<Rightarrow> string \<Rightarrow> jsval option" where
  "save_document_json now input =
     (case JSON_parse input of
        None \<Rightarrow> None
      | Some jsonObj \<Rightarrow>
          (case jsonObj of
             JObj kvs \<Rightarrow>
               if truthy (get_field jsonObj ''content'') then
                 (let kvs1 = (if \<not> truthy (get_field (JObj kvs) ''folderType'')
                              then AList.update ''folderType'' (JStr ''output'') kvs else kvs);
                      kvs2 = (if \<not> truthy (get_field (JObj kvs1) ''fileName'')
                              then AList.update ''fileName'' (JStr (default_fileName now)) kvs1 else kvs1)
                  in Some (JObj kvs2))
               else None
           | _ \<Rightarrow> None))"

text \<open>Lines 253 to 354: the case of the tool \<open>save_document\<close>; every exception is thrown again, wrapped.\<close>

definition save_document_case :: "int \<Rightarrow> string \<Rightarrow> exn + (step \<times> jsval)" where
  "save_document_case now input =
     (case save_document_json now input of
        Some v \<Rightarrow> Inr (SaveDocumentJson, v)
      | None \<Rightarrow>
          (case save_document_regex now input of
             Inl e \<Rightarrow> Inl (SaveInputError e)
           | Inr v \<Rightarrow> Inr (SaveDocumentRegex, v)))"

text \<open>Lines 157 to 358: the body of the outer \<open>try\<close>; \<open>name\<close> is \<open>this.name\<close>.\<close>

definition cascade :: "int \<Rightarrow> string \<Rightarrow> string \<Rightarrow> exn + (step \<times> jsval)" where
  "cascade now name input =
     (case JSON_parse input of
        Some parsed \<Rightarrow> Inr (StandardJson, parsed)
      | None \<Rightarrow>
          (case jsonFixed input of
             Inl e \<Rightarrow> Inl e
           | Inr fixed \<Rightarrow>
               (case JSON_parse fixed of
                  Some parsedFixed \<Rightarrow> Inr (CleanedJson, parsedFixed)
                | None \<Rightarrow>
                    (case key_value_text input of
                       Some obj \<Rightarrow> Inr (KeyValueText, JObj obj)
                     | None \<Rightarrow>
                         if name = ''requirement_analysis'' \<and> input \<noteq> [] then
                           Inr (RequirementAnalysis, JObj [(''description'', JStr input)])
                         else if name = ''external_design'' \<and> input \<noteq> [] then
                           Inr (ExternalDesign, JObj [(''requirementsAnalysis'', JStr input)])
                         else if name = ''save_document'' then save_document_case now input
                         else Inr (WrappedInput, JObj [(''input'', JStr input)])))))"

text \<open>Lines 150 to 363 on a string: the empty mapping for a blank input, else the cascade under the outer \<open>catch\<close>.\<close>

definition parse_string :: "int \<Rightarrow> string \<Rightarrow> string \<Rightarrow> exn + (step \<times> jsval)" where
  "parse_string now name input =
     (if input = [] \<or> trim input = [] then Inr (EmptyInput, JObj [])
      else (case cascade now name input of
              Inl e \<Rightarrow> Inr (UnexpectedError, JObj [])
            | Inr r \<Rightarrow> Inr r))"

text \<open>
  \<open>StringInputToolWrapper._parseStringToJson\<close> with the return point it took; \<open>Inl\<close> would
  be an exception that leaves the function.
\<close>

definition parse_traced :: "int \<Rightarrow> string \<Rightarrow> payload \<Rightarrow> exn + (step \<times> jsval)" where
  "parse_traced now name input =
     (case input of
        PNull \<Rightarrow> Inr (NotAString, JNull)
      | PUndefined \<Rightarrow> Inr (NotAString, JUndefined)
      | PObject v \<Rightarrow> Inr (NotAString, v)
      | POther s \<Rightarrow> parse_string now name s
      | PString s \<Rightarrow> parse_string now name s)"

definition parseStringToJson :: "int \<Rightarrow> string \<Rightarrow> payload \<Rightarrow> exn + jsval" where
  "parseStringToJson now name input = map_sum id snd (parse_traced now name input)"

section \<open>The naming utility (\<open>formatter.js\<close>)\<close>

text \<open>The local fields of \<open>new Date()\<close>, under the names of their accessors; \<open>getMonth\<close> counts from 0.\<close>

record js_date =
  getFullYear :: int
  getMonth :: nat
  getDate :: nat
  getHours :: nat
  getMinutes :: nat
  getSeconds :: nat

text \<open>\<open>s.padStart(2, '0')\<close>\<close>

definition padStart2 :: "string \<Rightarrow> string" where
  "padStart2 s = replicate (2 - length s) (CHR ''0'') @ s"

definition getFormattedDateTime :: "js_date \<Rightarrow> string" where
  "getFormattedDateTime now =
     String_int (getFullYear now) @ padStart2 (digits_of (getMonth now + 1)) @ padStart2 (digits_of (getDate now))
       @ ''_'' @ padStart2 (digits_of (getHours now)) @ padStart2 (digits_of (getMinutes now))
       @ padStart2 (digits_of (getSeconds now))"

text \<open>\<open>/\d{8}/\<close>\<close>

definition datePattern :: re where
  "datePattern = seqs (map Chr [is_digit, is_digit, is_digit, is_digit, is_digit, is_digit, is_digit, is_digit])"

definition getTimestampedFilename :: "js_date \<Rightarrow> string \<Rightarrow> string \<Rightarrow> string" where
  "getTimestampedFilename now baseName extension =
     (if search datePattern baseName \<noteq> None
      then baseName @ drop 9 (getFormattedDateTime now) @ ''.'' @ extension
      else baseName @ ''_'' @ getFormattedDateTime now @ ''.'' @ extension)"

section \<open>The document-save tool (\<open>analysis-tools.js\<close>)\<close>

text \<open>
  \<open>config.app.outputDirs\<close> of \<open>config/index.js\<close>: five directories, each the result of
  \<open>path.join\<close>. The object has no key \<open>output\<close>.
\<close>

record outputDirs =
  root :: string
  requirements :: string
  designs :: string
  sessions :: string
  diagrams :: string

text \<open>
  The file system: the regular files with their content, the directories, the paths at
  which the platform refuses to create or write (permissions, a missing parent of a file),
  and the characters that separate the components of a path on the platform.
\<close>

record filesystem =
  files :: "string \<rightharpoonup> string"
  dirs :: "string set"
  refused :: "string set"
  separators :: "char set"

datatype io_error = EEXIST | ENOTDIR | EISDIR | EREFUSED | ERR_INVALID_ARG_TYPE

text \<open>
  The directory \<open>d\<close> with the directories above it, outermost first: each prefix of \<open>d\<close>
  that a separator follows, then \<open>d\<close> itself.
\<close>

fun path_prefixes :: "(char \<Rightarrow> bool) \<Rightarrow> string \<Rightarrow> string \<Rightarrow> string list" where
  "path_prefixes sep acc [] = (if acc = [] then [] else [acc])"
| "path_prefixes sep acc (c # cs) =
     (if sep c \<and> acc \<noteq> [] then acc # path_prefixes sep (acc @ [c]) cs
      else path_prefixes sep (acc @ [c]) cs)"

definition ancestors :: "char set \<Rightarrow> string \<Rightarrow> string list" where
  "ancestors seps d = path_prefixes (\<lambda>c. c \<in> seps) [] d"

text \<open>
  \<open>fs.ensureDirSync(d)\<close> of \<open>fs-extra\<close>: the directory and every missing directory above
  it are created; a regular file in the way, or a refusal of the platform, is an error.
\<close>

definition ensureDirSync :: "filesystem \<Rightarrow> string \<Rightarrow> io_error + filesystem" where
  "ensureDirSync fs d =
     (let up = ancestors (separators fs) d in
      if list_ex (\<lambda>p. files fs p \<noteq> None) up
      then Inl (if files fs d \<noteq> None then EEXIST else ENOTDIR)
      else if list_ex (\<lambda>p. p \<notin> dirs fs \<and> p \<in> refused fs) up then Inl EREFUSED
      else Inr (fs\<lparr>dirs := dirs fs \<union> set up\<rparr>))"

definition existsSync :: "filesystem \<Rightarrow> string \<Rightarrow> bool" where
  "existsSync fs p = (files fs p \<noteq> None \<or> p \<in> dirs fs)"

text \<open>\<open>fs.writeFileSync(p, data, 'utf8')\<close>: data that is not a string is a \<open>TypeError\<close>.\<close>

definition writeFileSync :: "filesystem \<Rightarrow> string \<Rightarrow> jsval \<Rightarrow> io_error + filesystem" where
  "writeFileSync fs p data =
     (case data of
        JStr t \<Rightarrow>
          if p \<in> dirs fs then Inl EISDIR
          else if p \<in> refused fs then Inl EREFUSED
          else Inr (fs\<lparr>files := (files fs)(p \<mapsto> t)\<rparr>)
      | _ \<Rightarrow> Inl ERR_INVALID_ARG_TYPE)"

text \<open>
  The errors of \<open>SaveDocumentTool._call\<close>, by their message: the arguments are undefined
  or empty; the content is undefined or empty; no output directory is configured for the
  folder type; no file path; the directory could not be created; the file could not be
  written; \<open>path.join\<close> got a file name that is not a string. \<open>SaveFailed e\<close> is the error
  of the outer \<open>catch\<close>, "an error occurred while saving the document: " and the message of \<open>e\<close>.
\<close>

datatype save_exn =
    ArgsMissing
  | ContentMissing
  | OutputDirUnset jsval
  | FilePathFailed
  | DirCreateFailed io_error
  | WriteFailed io_error
  | PathTypeError
  | SaveFailed save_exn

text \<open>
  The two texts the tool returns, with the displayed path: the file already exists and
  overwriting was not asked for; the document was saved (\<open>True\<close>: "overwriting the
  existing file").
\<close>

datatype save_reply = AlreadyExists string | Saved string bool

text \<open>\<open>filePath.replace(/\\/g, '/')\<close>\<close>

definition displayPath :: "string \<Rightarrow> string" where
  "displayPath filePath = map (\<lambda>c. if c = CHR 0x5C then CHR ''/'' else c) filePath"

text \<open>Lines 268 to 277: the \<open>switch\<close> on the folder type.\<close>

definition outputDir_of :: "outputDirs \<Rightarrow> jsval \<Rightarrow> jsval" where
  "outputDir_of cfg folderType =
     (if folderType = JStr ''requirements'' then JStr (requirements cfg)
      else if folderType = JStr ''designs'' then JStr (designs cfg)
      else JUndefined)"

text \<open>Lines 248 to 256: the folder type and the file name, with their defaults.\<close>

definition folderType_of :: "jsval \<Rightarrow> jsval" where
  "folderType_of args =
     (if \<not> truthy (get_field args ''folderType'') then JStr ''output'' else get_field args ''folderType'')"

definition fileName_of :: "int \<Rightarrow> jsval \<Rightarrow> jsval" where
  "fileName_of now args =
     (if \<not> truthy (get_field args ''fileName'') then JStr (default_fileName now)
      else get_field args ''fileName'')"

text \<open>Line 245: \<open>overwrite = false\<close> when the key is undefined.\<close>

definition overwrite_of :: "jsval \<Rightarrow> jsval" where
  "overwrite_of args =
     (if get_field args ''overwrite'' = JUndefined then JBool False else get_field args ''overwrite'')"

text \<open>
  Lines 236 to 323, the body of the \<open>try\<close>. \<open>join\<close> is \<open>path.join\<close> of the platform,
  \<open>now\<close> the clock in milliseconds.
\<close>

definition save_body :: "(string \<Rightarrow> string \<Rightarrow> string) \<Rightarrow> outputDirs \<Rightarrow> int \<Rightarrow> filesystem \<Rightarrow> jsval \<Rightarrow>
    (save_exn + save_reply) \<times> filesystem" where
  "save_body join cfg now fs args =
     (if \<not> truthy args then (Inl ArgsMissing, fs)
      else
        (let folderType = folderType_of args;
             fileName = fileName_of now args;
             content = get_field args ''content'';
             overwrite = overwrite_of args;
             outputDir = outputDir_of cfg folderType
         in if \<not> truthy content then (Inl ContentMissing, fs)
            else if \<not> truthy outputDir then (Inl (OutputDirUnset folderType), fs)
            else
              (case (outputDir, fileName) of
                 (JStr d, JStr f) \<Rightarrow>
                   (let filePath = join d f in
                    if filePath = [] then (Inl FilePathFailed, fs)
                    else
                      (case ensureDirSync fs d of
                         Inl e \<Rightarrow> (Inl (DirCreateFailed e), fs)
                       | Inr fs1 \<Rightarrow>
                           (let fileExists = existsSync fs1 filePath in
                            if fileExists \<and> \<not> truthy overwrite
                            then (Inr (AlreadyExists (displayPath filePath)), fs1)
                            else
                              (case writeFileSync fs1 filePath content of
                                 Inl e \<Rightarrow> (Inl (WriteFailed e), fs1)
                               | Inr fs2 \<Rightarrow> (Inr (Saved (displayPath filePath) fileExists), fs2)))))
               | _ \<Rightarrow> (Inl PathTypeError, fs))))"

text \<open>\<open>SaveDocumentTool._call\<close>: every error of the body is thrown again by the outer \<open>catch\<close>.\<close>

definition SaveDocumentTool_call :: "(string \<Rightarrow> string \<Rightarrow> string) \<Rightarrow> outputDirs \<Rightarrow> int \<Rightarrow> filesystem \<Rightarrow> jsval \<Rightarrow>
    (save_exn + save_reply) \<times> filesystem" where
  "SaveDocumentTool_call join cfg now fs args =
     (case save_body join cfg now fs args of
        (Inl e, fs') \<Rightarrow> (Inl (SaveFailed e), fs')
      | (Inr r, fs') \<Rightarrow> (Inr r, fs'))"

text \<open>The path a call resolves (line 288), when the directory and the file name are strings.\<close>

definition target_path :: "(string \<Rightarrow> string \<Rightarrow> string) \<Rightarrow> outputDirs \<Rightarrow> int \<Rightarrow> jsval \<Rightarrow> string option" where
  "target_path join cfg now args =
     (case (outputDir_of cfg (folderType_of args), fileName_of now args) of
        (JStr d, JStr f) \<Rightarrow> Some (join d f)
      | _ \<Rightarrow> None)"

section \<open>Evaluation\<close>

text \<open>The defining equations that evaluate the model on a concrete input.\<close>

lemmas rx_defs = seqs_def lit_def lit_ci_def rplus_def lazy_plus_def ropt_def any_char_def one_of_def
  none_of_def is_space_def is_digit_def is_word_def is_hex_def is_bare_def wrap_char_def full_match_def

lemmas str_defs = trim_def toLowerCase_def lower_char_def upper_letters_def lower_letters_def
  startsWith_def endsWith_def substring_def String_int_def digit_char_def digits_of.simps
  capstr_def group_trim_def

lemmas json_defs = JSON_parse_def bare_tok_def json_number_def cons_tok_def unescape_def
  hex_digit_def hex_value_def

lemmas parse_defs = parse_traced_def parseStringToJson_def parse_string_def cascade_def jsonFixed_def
  codeBlockRegex_def propertyNameRegex_def trailingCommaRegex_def keyValueRegex_def key_value_text_def
  key_value_loop.simps replace_all.simps coerce_value_def set_prop_def strip_start_def replace_first_def
  save_document_case_def save_document_json_def save_document_regex_def contentPatterns_def
  field_end_def fieldRegex_def overwriteRegex_def set_matched_def validate_content_def
  default_fileName_def get_field_def Number_isNaN_def str_numeric_def str_decimal_def
  exponent_part_def

lemmas date_defs = getTimestampedFilename_def getFormattedDateTime_def datePattern_def padStart2_def

lemmas save_defs = SaveDocumentTool_call_def save_body_def folderType_of_def fileName_of_def
  overwrite_of_def outputDir_of_def target_path_def ensureDirSync_def ancestors_def existsSync_def
  writeFileSync_def displayPath_def get_field_def default_fileName_def

section \<open>Properties\<close>

text \<open>A mapping is an object: neither \<open>null\<close>, nor \<open>undefined\<close>, nor a primitive, nor an array.\<close>

definition is_mapping :: "jsval \<Rightarrow> bool" where
  "is_mapping v = (case v of JObj kvs \<Rightarrow> True | _ \<Rightarrow> False)"

text \<open>
  The words of the specification for the naming utility: the base name contains a token
  of 8 contiguous digits; the fields of a date are those of a calendar date and a time of day.
\<close>

definition has_date_token :: "string \<Rightarrow> bool" where
  "has_date_token s = (\<exists>pre ds suf. s = pre @ ds @ suf \<and> length ds = 8 \<and> list_all is_digit ds)"

definition valid_date :: "js_date \<Rightarrow> bool" where
  "valid_date d = (getMonth d \<le> 11 \<and> 1 \<le> getDate d \<and> getDate d \<le> 31 \<and> getHours d \<le> 23 \<and>
     getMinutes d \<le> 59 \<and> getSeconds d \<le> 59)"

subsection \<open>Capture groups\<close>

lemma run_captures:
  "run k s c = Some (c', s') \<Longrightarrow> fst ` set c \<union> (\<Union>r \<in> set k. sure r) \<subseteq> fst ` set c'"
proof (induction k s c arbitrary: c' s' rule: run.induct)
  case (1 s c)
  then show ?case by simp
next
  case (2 p k s c)
  show ?case
  proof (cases s)
    case Nil
    with "2.prems" show ?thesis by simp
  next
    case (Cons x xs)
    with "2.prems" have "p x" and "run k xs c = Some (c', s')"
      by (simp_all split: if_splits)
    with "2.IH" [OF Cons] have "fst ` set c \<union> (\<Union>r \<in> set k. sure r) \<subseteq> fst ` set c'" by blast
    then show ?thesis by simp
  qed
next
  case (3 a b k s c)
  from "3.prems" have "run (a # b # k) s c = Some (c', s')" by (simp only: run.simps)
  from "3.IH" [OF this] show ?case by (simp add: Un_assoc)
next
  case (4 a b k s c)
  show ?case
  proof (cases "run (a # k) s c")
    case None
    with "4.prems" have "run (b # k) s c = Some (c', s')" by simp
    from "4.IH"(2) [OF None this] show ?thesis by auto
  next
    case (Some r)
    with "4.prems" have "run (a # k) s c = Some (c', s')" by simp
    from "4.IH"(1) [OF this] show ?thesis by auto
  qed
next
  case (5 a k s c)
  show ?case
  proof (cases "run (a # Guard (length s) # Star a # k) s c")
    case None
    with "5.prems" have "run k s c = Some (c', s')" by simp
    from "5.IH"(2) [OF None this] show ?thesis by simp
  next
    case (Some r)
    with "5.prems" have "run (a # Guard (length s) # Star a # k) s c = Some (c', s')" by simp
    from "5.IH"(1) [OF this] show ?thesis by auto
  qed
next
  case (6 a k s c)
  show ?case
  proof (cases "run k s c")
    case None
    with "6.prems" have "run (a # Guard (length s) # Lazy a # k) s c = Some (c', s')" by simp
    from "6.IH"(2) [OF None this] show ?thesis by auto
  next
    case (Some r)
    with "6.prems" have "run k s c = Some (c', s')" by simp
    from "6.IH"(1) [OF this] show ?thesis by simp
  qed
next
  case (7 i a k s c)
  from "7.prems" have "run (a # Close i s # k) s c = Some (c', s')" by (simp only: run.simps)
  from "7.IH" [OF this] show ?case by auto
next
  case (8 i s0 k s c)
  from "8.prems" have "run k s (AList.update i (take (length s0 - length s) s0) c) = Some (c', s')"
    by (simp only: run.simps)
  from "8.IH" [OF this] show ?case by (auto simp: dom_update)
next
  case (9 a k s c)
  show ?case
  proof (cases "run [a] s c")
    case None
    with "9.prems" show ?thesis by simp
  next
    case (Some r)
    obtain c1 s1 where r: "r = (c1, s1)" by (cases r)
    with Some "9.prems" have k: "run k s c1 = Some (c', s')" by simp
    define C0 where "C0 = fst ` set c"
    define C1 where "C1 = fst ` set c1"
    define C2 where "C2 = fst ` set c'"
    define U where "U = (\<Union>r \<in> set k. sure r)"
    from "9.IH"(1) [OF Some [unfolded r]] have "C0 \<union> sure a \<subseteq> C1"
      by (simp add: C0_def C1_def)
    moreover from "9.IH"(2) [OF Some r [symmetric] k]
    have "C1 \<union> U \<subseteq> C2" by (simp only: C1_def C2_def U_def)
    ultimately have "C0 \<union> (sure a \<union> U) \<subseteq> C2" by blast
    then show ?thesis by (simp add: C0_def C2_def U_def)
  qed
next
  case (10 k s c)
  from "10.prems" have "run k s c = Some (c', s')" by (simp only: run.simps)
  from "10.IH" [OF this] show ?case by simp
next
  case (11 k s c)
  from "11.prems" have "s = []" and "run k s c = Some (c', s')" by (simp_all split: if_splits)
  from "11.IH" [OF this] show ?case by simp
next
  case (12 n k s c)
  from "12.prems" have "length s < n" and "run k s c = Some (c', s')" by (simp_all split: if_splits)
  from "12.IH" [OF this] show ?case by simp
qed

lemma search_captures: "search r s = Some (p, c, s') \<Longrightarrow> i \<in> sure r \<Longrightarrow> map_of c i \<noteq> None"
proof (induction s arbitrary: p)
  case Nil
  then obtain "run [r] [] [] = Some (c, s')" by (auto split: option.splits)
  from run_captures [OF this] Nil.prems(2) have "i \<in> fst ` set c" by auto
  then show ?case by (simp add: map_of_eq_None_iff)
next
  case (Cons x xs)
  show ?case
  proof (cases "run [r] (x # xs) []")
    case None
    with Cons.prems obtain p' where "search r xs = Some (p', c, s')"
      by (auto split: option.splits)
    from Cons.IH [OF this Cons.prems(2)] show ?thesis .
  next
    case (Some q)
    with Cons.prems have "run [r] (x # xs) [] = Some (c, s')" by (cases q) simp
    from run_captures [OF this] Cons.prems(2) have "i \<in> fst ` set c" by auto
    then show ?thesis by (simp add: map_of_eq_None_iff)
  qed
qed

lemma sure_seqs: "sure (seqs rs) = (\<Union>r \<in> set rs. sure r)"
  by (induction rs) (simp_all add: seqs_def)

lemma sure_patterns:
  "1 \<in> sure codeBlockRegex" "2 \<in> sure keyValueRegex" "1 \<in> sure keyValueRegex"
  "1 \<in> sure (fieldRegex n)" "1 \<in> sure overwriteRegex"
  "\<forall>r \<in> set contentPatterns. 1 \<in> sure r"
  by (simp_all add: sure_seqs codeBlockRegex_def keyValueRegex_def fieldRegex_def overwriteRegex_def
      contentPatterns_def)

subsection \<open>The cascade\<close>

lemma trim_blank: "(trim s = []) = (\<forall>c \<in> set s. is_space c)"
proof
  assume "trim s = []"
  then have a: "\<forall>c \<in> set (dropWhile is_space s). is_space c"
    by (simp add: trim_def dropWhile_eq_Nil_conv)
  have "dropWhile is_space s = []"
  proof (rule ccontr)
    assume n: "dropWhile is_space s \<noteq> []"
    then have "\<not> is_space (hd (dropWhile is_space s))" by (rule hd_dropWhile)
    moreover from n have "hd (dropWhile is_space s) \<in> set (dropWhile is_space s)" by simp
    ultimately show False using a by blast
  qed
  then show "\<forall>c \<in> set s. is_space c" by (simp add: dropWhile_eq_Nil_conv)
next
  assume "\<forall>c \<in> set s. is_space c"
  then show "trim s = []" by (auto simp: trim_def dest: set_dropWhileD)
qed

lemma save_document_json_mapping: "save_document_json now s = Some v \<Longrightarrow> is_mapping v"
  by (auto simp: save_document_json_def is_mapping_def Let_def split: option.splits jsval.splits if_splits)

lemma validate_content_mapping: "validate_content obj = Inr v \<Longrightarrow> v = JObj obj"
  by (auto simp: validate_content_def split: jsval.splits if_splits)

lemma save_document_regex_mapping: "save_document_regex now s = Inr v \<Longrightarrow> is_mapping v"
  by (auto simp: save_document_regex_def is_mapping_def Let_def split: sum.splits dest!: validate_content_mapping)

lemma save_document_case_mapping:
  "save_document_case now s = Inr (st, v) \<Longrightarrow> is_mapping v \<and> st \<in> {SaveDocumentJson, SaveDocumentRegex}"
  by (auto simp: save_document_case_def split: option.splits sum.splits
      dest: save_document_json_mapping save_document_regex_mapping)

lemma cascade_result:
  assumes "cascade now name s = Inr (st, v)"
  shows "(st = StandardJson \<longrightarrow> JSON_parse s = Some v) \<and>
         (st = CleanedJson \<longrightarrow> (\<exists>fixed. jsonFixed s = Inr fixed \<and> JSON_parse fixed = Some v)) \<and>
         (st \<noteq> StandardJson \<and> st \<noteq> CleanedJson \<longrightarrow> is_mapping v) \<and>
         st \<noteq> EmptyInput \<and> st \<noteq> UnexpectedError \<and> st \<noteq> NotAString"
  using assms
  by (auto simp: cascade_def is_mapping_def split: option.splits sum.splits if_splits
      dest: save_document_case_mapping)

lemma trim_nonblank: "trim g \<noteq> [] \<Longrightarrow> trim (trim g) \<noteq> []"
proof -
  assume n: "trim g \<noteq> []"
  define d where "d = dropWhile is_space (rev (dropWhile is_space g))"
  from n have dn: "d \<noteq> []" by (simp add: trim_def d_def)
  then have "\<not> is_space (hd d)" unfolding d_def by (rule hd_dropWhile)
  moreover from dn have "hd d \<in> set (trim g)" by (simp add: trim_def d_def [symmetric])
  ultimately show ?thesis by (auto simp: trim_blank)
qed

lemma group_trim_ok: "map_of c i \<noteq> None \<Longrightarrow> \<exists>g. group_trim c i = Inr (trim g)"
  by (auto simp: group_trim_def)

lemma first_content_ok:
  assumes "\<forall>r \<in> set rs. 1 \<in> sure r"
  shows "first_content rs input = Inr [] \<or> (\<exists>g. first_content rs input = Inr (trim g))"
  using assms
proof (induction rs)
  case Nil
  then show ?case by simp
next
  case (Cons r rs)
  show ?case
  proof (cases "search r input")
    case None
    with Cons show ?thesis by simp
  next
    case (Some m)
    obtain p c s' where m: "m = (p, c, s')" by (cases m)
    from Cons.prems have "1 \<in> sure r" by simp
    from search_captures [OF Some [unfolded m] this] have "map_of c 1 \<noteq> None" .
    from group_trim_ok [OF this] obtain g where "group_trim c 1 = Inr (trim g)" by blast
    with Some m show ?thesis by auto
  qed
qed

lemma set_matched_ok:
  assumes "1 \<in> sure r"
  shows "\<exists>obj'. set_matched key f (search r input) obj = Inr obj' \<and>
           (\<forall>k. k \<noteq> key \<longrightarrow> map_of obj' k = map_of obj k) \<and>
           (search r input = None \<longrightarrow> obj' = obj)"
proof (cases "search r input")
  case None
  then show ?thesis by (simp add: set_matched_def)
next
  case (Some m)
  obtain p c s' where m: "m = (p, c, s')" by (cases m)
  from search_captures [OF Some [unfolded m] assms] obtain t where "map_of c 1 = Some t" by auto
  with Some m show ?thesis by (auto simp: set_matched_def update_conv')
qed

lemma save_document_regex_ok:
  assumes "trim input \<noteq> []"
  obtains obj t where
    "save_document_regex now input = Inr (JObj obj)"
    "map_of obj ''content'' = Some (JStr t)"
    "trim t \<noteq> []"
    "first_content contentPatterns input = Inr [] \<longrightarrow> t = input"
    "search (fieldRegex ''folderType'') input = None \<longrightarrow> map_of obj ''folderType'' = Some (JStr ''output'')"
    "search (fieldRegex ''fileName'') input = None \<longrightarrow> map_of obj ''fileName'' = Some (JStr (default_fileName now))"
proof -
  obtain content where fc: "first_content contentPatterns input = Inr content"
    and cn: "content = [] \<or> (\<exists>g. content = trim g)"
    using first_content_ok [OF sure_patterns(6), of input] by auto
  define t where "t = (if content \<noteq> [] then content else input)"
  have tn: "trim t \<noteq> []"
    using cn assms by (auto simp: t_def dest: trim_nonblank)
  define result0 where "result0 = [(''folderType'', JStr ''output''),
     (''fileName'', JStr (default_fileName now)), (''content'', JStr t)]"
  obtain result1 where r1: "set_matched ''folderType'' (\<lambda>t. JStr (trim t)) (search (fieldRegex ''folderType'') input) result0 = Inr result1"
    and k1: "\<forall>k. k \<noteq> ''folderType'' \<longrightarrow> map_of result1 k = map_of result0 k"
    and n1: "search (fieldRegex ''folderType'') input = None \<longrightarrow> result1 = result0"
    using set_matched_ok [OF sure_patterns(4)] by blast
  obtain result2 where r2: "set_matched ''fileName'' (\<lambda>t. JStr (trim t)) (search (fieldRegex ''fileName'') input) result1 = Inr result2"
    and k2: "\<forall>k. k \<noteq> ''fileName'' \<longrightarrow> map_of result2 k = map_of result1 k"
    and n2: "search (fieldRegex ''fileName'') input = None \<longrightarrow> result2 = result1"
    using set_matched_ok [OF sure_patterns(4)] by blast
  obtain result3 where r3: "set_matched ''overwrite'' (\<lambda>t. JBool (toLowerCase t = ''true'')) (search overwriteRegex input) result2 = Inr result3"
    and k3: "\<forall>k. k \<noteq> ''overwrite'' \<longrightarrow> map_of result3 k = map_of result2 k"
    using set_matched_ok [OF sure_patterns(5)] by blast
  have c3: "map_of result3 ''content'' = Some (JStr t)"
    using k1 k2 k3 by (simp add: result0_def)
  have f3: "search (fieldRegex ''folderType'') input = None \<longrightarrow> map_of result3 ''folderType'' = Some (JStr ''output'')"
    using n1 k2 k3 by (simp add: result0_def)
  have g3: "search (fieldRegex ''fileName'') input = None \<longrightarrow> map_of result3 ''fileName'' = Some (JStr (default_fileName now))"
    using n2 k1 k3 by (simp add: result0_def)
  from tn have "t \<noteq> []" by (auto simp: trim_def)
  with c3 tn have v: "validate_content result3 = Inr (JObj result3)"
    by (simp add: validate_content_def get_field_def)
  have s3: "save_document_regex now input = Inr (JObj result3)"
    using fc r1 r2 r3 v by (simp add: save_document_regex_def t_def result0_def)
  have e3: "first_content contentPatterns input = Inr [] \<longrightarrow> t = input"
    using fc by (simp add: t_def)
  from that [OF s3 c3 tn e3 f3 g3] show thesis .
qed

lemma jsonFixed_ok: "\<exists>fixed. jsonFixed input = Inr fixed"
proof (cases "search codeBlockRegex input")
  case None
  then show ?thesis by (simp add: jsonFixed_def)
next
  case (Some m)
  obtain p c s' where m: "m = (p, c, s')" by (cases m)
  from search_captures [OF Some [unfolded m] sure_patterns(1)] have "map_of c 1 \<noteq> None" .
  from group_trim_ok [OF this] obtain g where "group_trim c 1 = Inr (trim g)" by blast
  with Some m show ?thesis by (simp add: jsonFixed_def)
qed

lemma cascade_ok:
  assumes "trim input \<noteq> []"
  shows "\<exists>st v. cascade now name input = Inr (st, v)"
proof -
  obtain fixed where f: "jsonFixed input = Inr fixed" using jsonFixed_ok by blast
  obtain obj where "save_document_regex now input = Inr (JObj obj)"
    by (rule save_document_regex_ok [OF assms])
  then have "\<exists>st v. save_document_case now input = Inr (st, v)"
    by (simp add: save_document_case_def split: option.splits)
  with f show ?thesis
    by (auto simp: cascade_def split: option.splits)
qed









text \<open>
  C2, as the code has it. For every input that is not blank, the document-save extractor
  returns a mapping whose \<open>content\<close> is not empty after trimming: when the content the
  patterns extract is empty after trimming, the whole raw input becomes the content. The
  validation failure of the extractor is raised for no input, and the parse of the
  document-save tool returns without having caught an exception.
\<close>

theorem extractor_never_rejects:
  assumes "trim input \<noteq> []"
  shows "\<exists>obj t. save_document_regex now input = Inr (JObj obj) \<and>
           get_field (JObj obj) ''content'' = JStr t \<and> trim t \<noteq> [] \<and>
           (first_content contentPatterns input = Inr [] \<longrightarrow> t = input) \<and>
           (\<exists>st v. parse_traced now ''save_document'' (PString input) = Inr (st, v) \<and> st \<noteq> UnexpectedError)"
proof -
  obtain obj t where
    a: "save_document_regex now input = Inr (JObj obj)" "map_of obj ''content'' = Some (JStr t)"
       "trim t \<noteq> []" "first_content contentPatterns input = Inr [] \<longrightarrow> t = input"
    by (rule save_document_regex_ok [OF assms])
  from cascade_ok [OF assms] obtain st v where c: "cascade now ''save_document'' input = Inr (st, v)"
    by blast
  from cascade_result [OF c] have "st \<noteq> UnexpectedError" by simp
  moreover from assms have "input \<noteq> []" by (auto simp: trim_def)
  ultimately have "parse_traced now ''save_document'' (PString input) = Inr (st, v) \<and> st \<noteq> UnexpectedError"
    using assms c by (simp add: parse_traced_def parse_string_def)
  with a show ?thesis by (auto simp: get_field_def)
qed


text \<open>Witness of C2: a fence around a single blank, whose extracted content is empty.\<close>

theorem extractor_never_rejects_witness:
  "\<exists>obj. save_document_regex 0 ''``` ```'' = Inr (JObj obj) \<and>
     get_field (JObj obj) ''content'' = JStr ''``` ```'' \<and>
     first_content contentPatterns ''``` ```'' = Inr []"
proof -
  have h: "trim ''``` ```'' \<noteq> []" by (simp add: rx_defs str_defs json_defs parse_defs)
  have f: "first_content contentPatterns ''``` ```'' = Inr []" by (simp add: rx_defs str_defs json_defs parse_defs)
  from extractor_never_rejects [OF h, of 0] f show ?thesis by auto
qed

text \<open>
  Counterexample to C2 as stated: for the fence around a single blank the extracted
  content is empty after trimming, and the parse returns a mapping with the raw input as
  content; no failure reaches the caller.
\<close>

theorem empty_extraction_counterexample:
  "first_content contentPatterns ''``` ```'' = Inr [] \<and>
   parse_traced 0 ''save_document'' (PString ''``` ```'') =
     Inr (SaveDocumentRegex, JObj [(''folderType'', JStr ''output''), (''fileName'', JStr ''document_0.md''),
       (''content'', JStr ''``` ```'')])"
  by (simp add: rx_defs str_defs json_defs parse_defs)

text \<open>
  C5, as the code has it. For the document-save tool the payload
  \<open>content: "Hello", fileName: "x.md"\<close> is answered by the key-value extraction with
  exactly the two keys \<open>content\<close> and \<open>fileName\<close>; the cascade stops there and no
  \<open>folderType\<close> is added.
\<close>

theorem key_value_payload:
  "parse_traced now ''save_document'' (PString ''content: \"Hello\", fileName: \"x.md\"'') =
     Inr (KeyValueText, JObj [(''content'', JStr ''Hello''), (''fileName'', JStr ''x.md'')])"
  by (simp add: rx_defs str_defs json_defs parse_defs)

text \<open>
  Counterexample to C5 as stated: the mapping returned has no \<open>folderType\<close>.
\<close>

theorem key_value_payload_counterexample:
  "parseStringToJson 0 ''save_document'' (PString ''content: \"Hello\", fileName: \"x.md\"'') =
     Inr (JObj [(''content'', JStr ''Hello''), (''fileName'', JStr ''x.md'')]) \<and>
   get_field (JObj [(''content'', JStr ''Hello''), (''fileName'', JStr ''x.md'')]) ''folderType'' = JUndefined"
  by (simp add: rx_defs str_defs json_defs parse_defs)




text \<open>
  C7. For every tool name, a payload that is the empty string or consists of white space
  only returns the empty mapping at the first return point of the function: no parsing
  strategy and no extractor has run.
\<close>

theorem blank_input_empty_mapping:
  assumes "\<forall>c \<in> set s. is_space c"
  shows "parse_traced now name (PString s) = Inr (EmptyInput, JObj [])"
  using assms by (simp add: parse_traced_def parse_string_def trim_blank)

text \<open>Witness of C7: a payload of a blank, a tab and a line feed, and the empty payload.\<close>

theorem blank_input_empty_mapping_witness:
  "parse_traced 0 ''save_document'' (PString [CHR '' '', CHR 0x09, CHR 0x0A]) = Inr (EmptyInput, JObj []) \<and>
   parse_traced 0 ''requirement_analysis'' (PString []) = Inr (EmptyInput, JObj [])"
proof -
  have h: "\<forall>c \<in> set [CHR '' '', CHR 0x09, CHR 0x0A]. is_space c" by (simp add: is_space_def)
  have e: "\<forall>c \<in> set ([] :: string). is_space c" by simp
  show ?thesis
    using blank_input_empty_mapping [OF h, of 0 "''save_document''"]
      blank_input_empty_mapping [OF e, of 0 "''requirement_analysis''"] by simp
qed

text \<open>
  C9. When the payload is \<open>null\<close> or \<open>undefined\<close>, \<open>_parseStringToJson\<close> returns that value
  itself, which is not a mapping.
\<close>

theorem null_undefined_returned:
  "parse_traced now name PNull = Inr (NotAString, JNull) \<and>
   parse_traced now name PUndefined = Inr (NotAString, JUndefined) \<and>
   parseStringToJson now name PNull = Inr JNull \<and>
   parseStringToJson now name PUndefined = Inr JUndefined \<and>
   \<not> is_mapping JNull \<and> \<not> is_mapping JUndefined"
  by (simp add: parse_traced_def parseStringToJson_def is_mapping_def)

subsection \<open>The document-save tool\<close>



lemma ensureDirSync_files:
  "ensureDirSync fs d = Inr fs1 \<Longrightarrow>
     files fs1 = files fs \<and> refused fs1 = refused fs \<and> separators fs1 = separators fs \<and>
     dirs fs1 = dirs fs \<union> set (ancestors (separators fs) d)"
  by (auto simp: ensureDirSync_def Let_def split: if_splits)




lemma save_body_declined:
  assumes "truthy args" "truthy (get_field args ''content'')"
    "outputDir_of cfg (folderType_of args) = JStr d" "d \<noteq> []" "fileName_of now args = JStr f"
    "join d f \<noteq> []" "ensureDirSync fs d = Inr fs1"
    "files fs (join d f) \<noteq> None" "\<not> truthy (overwrite_of args)"
  shows "SaveDocumentTool_call join cfg now fs args = (Inr (AlreadyExists (displayPath (join d f))), fs1)"
  using assms ensureDirSync_files [OF assms(7)]
  by (simp add: SaveDocumentTool_call_def save_body_def existsSync_def Let_def)

lemma save_body_written:
  assumes "truthy args" "get_field args ''content'' = JStr y" "y \<noteq> []"
    "outputDir_of cfg (folderType_of args) = JStr d" "d \<noteq> []" "fileName_of now args = JStr f"
    "join d f \<noteq> []" "ensureDirSync fs d = Inr fs1"
    "join d f \<notin> dirs fs1" "join d f \<notin> refused fs"
    "files fs (join d f) = None \<or> truthy (overwrite_of args)"
  shows "SaveDocumentTool_call join cfg now fs args =
           (Inr (Saved (displayPath (join d f)) (files fs (join d f) \<noteq> None)),
            fs1\<lparr>files := (files fs)(join d f \<mapsto> y)\<rparr>)"
  using assms ensureDirSync_files [OF assms(8)]
  by (auto simp: SaveDocumentTool_call_def save_body_def existsSync_def writeFileSync_def Let_def)

text \<open>
  In the folders \<open>requirements\<close> and \<open>designs\<close>, when the directory and those above it
  exist and the path is free and writable, two calls with the same arguments and
  \<open>overwrite\<close> false give "saved" and then "already exists", and the file keeps the content of
  the first call.
\<close>

lemma ensureDirSync_there:
  assumes "set (ancestors (separators fs) d) \<subseteq> dirs fs"
    and "\<forall>q \<in> set (ancestors (separators fs) d). files fs q = None"
  shows "ensureDirSync fs d = Inr fs"
proof -
  from assms(1) have "dirs fs \<union> set (ancestors (separators fs) d) = dirs fs" by blast
  with assms show ?thesis by (auto simp: ensureDirSync_def Let_def list_ex_iff)
qed

lemma save_twice_in_known_folder:
  assumes "folder = ''requirements'' \<or> folder = ''designs''"
    and od: "outputDir_of cfg (JStr folder) = JStr d" and dn: "d \<noteq> []" and fn: "f \<noteq> []"
    and xn: "x \<noteq> []" and jn: "join d f \<noteq> []"
    and up: "set (ancestors (separators fs) d) \<subseteq> dirs fs"
    and nf: "\<forall>q \<in> set (ancestors (separators fs) d). files fs q = None"
    and na: "join d f \<notin> set (ancestors (separators fs) d)"
    and pd: "join d f \<notin> dirs fs" and pr: "join d f \<notin> refused fs"
    and pf: "files fs (join d f) = None"
    and args: "args = JObj [(''folderType'', JStr folder), (''fileName'', JStr f), (''content'', JStr x), (''overwrite'', JBool False)]"
  shows "SaveDocumentTool_call join cfg now fs args =
           (Inr (Saved (displayPath (join d f)) False), fs\<lparr>files := (files fs)(join d f \<mapsto> x)\<rparr>) \<and>
         SaveDocumentTool_call join cfg now (fs\<lparr>files := (files fs)(join d f \<mapsto> x)\<rparr>) args =
           (Inr (AlreadyExists (displayPath (join d f))), fs\<lparr>files := (files fs)(join d f \<mapsto> x)\<rparr>)"
proof -
  let ?after = "fs\<lparr>files := (files fs)(join d f \<mapsto> x)\<rparr>"
  from assms(1) have fo: "folderType_of args = JStr folder"
    by (auto simp: args folderType_of_def get_field_def)
  have fi: "fileName_of now args = JStr f" using fn by (simp add: args fileName_of_def get_field_def)
  have ow: "\<not> truthy (overwrite_of args)" by (simp add: args overwrite_of_def get_field_def)
  have co: "get_field args ''content'' = JStr x" by (simp add: args get_field_def)
  have ta: "truthy args" by (simp add: args)
  from od fo have od': "outputDir_of cfg (folderType_of args) = JStr d" by simp
  have e: "ensureDirSync fs d = Inr fs" by (rule ensureDirSync_there [OF up nf])
  have "\<forall>q \<in> set (ancestors (separators ?after) d). files ?after q = None"
    using nf na by auto
  moreover have "set (ancestors (separators ?after) d) \<subseteq> dirs ?after" using up by simp
  ultimately have e': "ensureDirSync ?after d = Inr ?after" by (rule ensureDirSync_there [rotated])
  from pf have o: "files fs (join d f) = None \<or> truthy (overwrite_of args)" by simp
  have "SaveDocumentTool_call join cfg now fs args =
          (Inr (Saved (displayPath (join d f)) (files fs (join d f) \<noteq> None)), ?after)"
    by (rule save_body_written [where join = join, OF ta co xn od' dn fi jn e pd pr o])
  moreover have "SaveDocumentTool_call join cfg now ?after args =
          (Inr (AlreadyExists (displayPath (join d f))), ?after)"
  proof (rule save_body_declined [where join = join, OF ta _ od' dn fi jn e' _ ow])
    show "truthy (get_field args ''content'')" using co xn by simp
    show "files ?after (join d f) \<noteq> None" by simp
  qed
  ultimately show ?thesis using pf by simp
qed

text \<open>
  C3 at the folder type \<open>output\<close>, at the folder type \<open>c\<close> and with no folder type. On every
  file system, whatever the configured directories, the call raises "no output directory is
  configured" and writes nothing: \<open>config.app.outputDirs\<close> has no key \<open>output\<close>, which
  is what the \<open>default\<close> branch of the \<open>switch\<close> reads.
\<close>

theorem save_output_folder_raises:
  "SaveDocumentTool_call join cfg now fs
      (JObj [(''folderType'', JStr ''output''), (''fileName'', JStr ''f.md''), (''content'', JStr ''X''),
             (''overwrite'', JBool False)])
     = (Inl (SaveFailed (OutputDirUnset (JStr ''output''))), fs) \<and>
   SaveDocumentTool_call join cfg now fs
      (JObj [(''folderType'', JStr ''c''), (''fileName'', JStr ''f.md''), (''content'', JStr ''X''),
             (''overwrite'', JBool False)])
     = (Inl (SaveFailed (OutputDirUnset (JStr ''c''))), fs) \<and>
   SaveDocumentTool_call join cfg now fs
      (JObj [(''fileName'', JStr ''f.md''), (''content'', JStr ''X'')])
     = (Inl (SaveFailed (OutputDirUnset (JStr ''output''))), fs)"
  by (simp add: save_defs Let_def)



lemma content_guard_iff:
  assumes "truthy args"
  shows "(fst (SaveDocumentTool_call join cfg now fs args) = Inl (SaveFailed ContentMissing)) =
         (\<not> truthy (get_field args ''content''))"
proof (cases "truthy (get_field args ''content'')")
  case False
  with assms show ?thesis by (simp add: SaveDocumentTool_call_def save_body_def Let_def)
next
  case True
  obtain res fs' where b: "save_body join cfg now fs args = (res, fs')" by (cases "save_body join cfg now fs args")
  have "res \<noteq> Inl ContentMissing"
    using b assms True
    by (auto simp: save_body_def Let_def split: if_splits jsval.splits sum.splits)
  with b True show ?thesis by (cases res) (simp_all add: SaveDocumentTool_call_def)
qed

lemma parse_never_rejects:
  "\<exists>st v. parse_traced now ''save_document'' (PString input) = Inr (st, v) \<and> st \<noteq> UnexpectedError"
proof (cases "trim input = []")
  case True
  then show ?thesis by (simp add: parse_traced_def parse_string_def)
next
  case False
  from cascade_ok [OF False] obtain st v where c: "cascade now ''save_document'' input = Inr (st, v)"
    by blast
  from cascade_result [OF c] have "st \<noteq> UnexpectedError" by simp
  moreover from False have "input \<noteq> []" by (auto simp: trim_def)
  ultimately show ?thesis using False c by (simp add: parse_traced_def parse_string_def)
qed

text \<open>
  C10, as the code has it. For arguments that are given, the tool raises "the content is
  undefined or empty" exactly when \<open>content\<close> is falsy. A content of white space only is not
  empty: the guard lets it pass, and when the folder type resolves to a directory that can
  be ensured and the path can be written, the call answers "saved" and the file holds the
  white space as it is. The adapter in front of the tool rejects no input either: for the
  document-save tool every parse returns a value, and none of them comes from a caught
  exception.
\<close>

theorem content_guard:
  "(truthy args \<longrightarrow>
      (fst (SaveDocumentTool_call join cfg now fs args) = Inl (SaveFailed ContentMissing)) =
      (\<not> truthy (get_field args ''content''))) \<and>
   (ws \<noteq> [] \<and> trim ws = [] \<and> get_field args ''content'' = JStr ws \<longrightarrow>
      fst (SaveDocumentTool_call join cfg now fs args) \<noteq> Inl (SaveFailed ContentMissing)) \<and>
   (ws \<noteq> [] \<and> trim ws = [] \<and> get_field args ''content'' = JStr ws \<and>
    outputDir_of cfg (folderType_of args) = JStr d \<and> d \<noteq> [] \<and> fileName_of now args = JStr f \<and>
    join d f \<noteq> [] \<and> ensureDirSync fs d = Inr fs1 \<and> join d f \<notin> dirs fs1 \<and> join d f \<notin> refused fs \<and>
    (files fs (join d f) = None \<or> truthy (overwrite_of args)) \<longrightarrow>
      SaveDocumentTool_call join cfg now fs args =
        (Inr (Saved (displayPath (join d f)) (files fs (join d f) \<noteq> None)),
         fs1\<lparr>files := (files fs)(join d f \<mapsto> ws)\<rparr>)) \<and>
   (\<exists>st v. parse_traced clock ''save_document'' (PString input) = Inr (st, v) \<and> st \<noteq> UnexpectedError)"
proof (intro conjI impI)
  assume "truthy args"
  then show "(fst (SaveDocumentTool_call join cfg now fs args) = Inl (SaveFailed ContentMissing)) =
      (\<not> truthy (get_field args ''content''))" by (rule content_guard_iff)
next
  assume a: "ws \<noteq> [] \<and> trim ws = [] \<and> get_field args ''content'' = JStr ws"
  then have "truthy args" by (cases args) (auto simp: get_field_def)
  from content_guard_iff [OF this, of join cfg now fs] a
  show "fst (SaveDocumentTool_call join cfg now fs args) \<noteq> Inl (SaveFailed ContentMissing)" by simp
next
  assume a: "ws \<noteq> [] \<and> trim ws = [] \<and> get_field args ''content'' = JStr ws \<and>
    outputDir_of cfg (folderType_of args) = JStr d \<and> d \<noteq> [] \<and> fileName_of now args = JStr f \<and>
    join d f \<noteq> [] \<and> ensureDirSync fs d = Inr fs1 \<and> join d f \<notin> dirs fs1 \<and> join d f \<notin> refused fs \<and>
    (files fs (join d f) = None \<or> truthy (overwrite_of args))"
  then have t: "truthy args" by (cases args) (auto simp: get_field_def)
  show "SaveDocumentTool_call join cfg now fs args =
        (Inr (Saved (displayPath (join d f)) (files fs (join d f) \<noteq> None)),
         fs1\<lparr>files := (files fs)(join d f \<mapsto> ws)\<rparr>)"
    by (rule save_body_written [where join = join]) (use a t in simp_all)
next
  show "\<exists>st v. parse_traced clock ''save_document'' (PString input) = Inr (st, v) \<and> st \<noteq> UnexpectedError"
    by (rule parse_never_rejects)
qed

text \<open>
  Witness of C10: an empty content is refused; a content of two blanks in the folder
  \<open>requirements\<close>, on a file system without any directory, is saved as it is.
\<close>

theorem content_guard_witness:
  "fst (SaveDocumentTool_call (\<lambda>d f. d @ ''/'' @ f)
      \<lparr>root = ''out'', requirements = ''out/requirements'', designs = ''out/designs'',
        sessions = ''out/sessions'', diagrams = ''out/diagrams''\<rparr> 0
      \<lparr>files = Map.empty, dirs = {}, refused = {}, separators = {CHR ''/''}\<rparr>
      (JObj [(''folderType'', JStr ''requirements''), (''fileName'', JStr ''a.md''), (''content'', JStr [])]))
     = Inl (SaveFailed ContentMissing) \<and>
   SaveDocumentTool_call (\<lambda>d f. d @ ''/'' @ f)
      \<lparr>root = ''out'', requirements = ''out/requirements'', designs = ''out/designs'',
        sessions = ''out/sessions'', diagrams = ''out/diagrams''\<rparr> 0
      \<lparr>files = Map.empty, dirs = {}, refused = {}, separators = {CHR ''/''}\<rparr>
      (JObj [(''folderType'', JStr ''requirements''), (''fileName'', JStr ''a.md''), (''content'', JStr ''  '')])
     = (Inr (Saved ''out/requirements/a.md'' False),
        \<lparr>files = [''out/requirements/a.md'' \<mapsto> ''  ''], dirs = {''out'', ''out/requirements''},
          refused = {}, separators = {CHR ''/''}\<rparr>)"
proof -
  let ?join = "\<lambda>d f. d @ ''/'' @ f"
  let ?cfg = "\<lparr>root = ''out'', requirements = ''out/requirements'', designs = ''out/designs'',
        sessions = ''out/sessions'', diagrams = ''out/diagrams''\<rparr>"
  let ?empty = "\<lparr>files = Map.empty, dirs = {}, refused = {}, separators = {CHR ''/''}\<rparr> :: filesystem"
  let ?made = "\<lparr>files = Map.empty, dirs = {''out'', ''out/requirements''}, refused = {},
        separators = {CHR ''/''}\<rparr> :: filesystem"
  let ?after = "\<lparr>files = [''out/requirements/a.md'' \<mapsto> ''  ''], dirs = {''out'', ''out/requirements''},
        refused = {}, separators = {CHR ''/''}\<rparr>"
  let ?none = "JObj [(''folderType'', JStr ''requirements''), (''fileName'', JStr ''a.md''), (''content'', JStr [])]"
  let ?blank = "JObj [(''folderType'', JStr ''requirements''), (''fileName'', JStr ''a.md''), (''content'', JStr ''  '')]"
  have t: "truthy ?none" by simp
  have n: "\<not> truthy (get_field ?none ''content'')" by (simp add: get_field_def)
  have e: "ensureDirSync ?empty ''out/requirements'' = Inr ?made"
    by (simp add: save_defs Let_def insert_commute)
  have w: "trim ''  '' = []" by (simp add: trim_def is_space_def)
  have h: "''  '' \<noteq> [] \<and> trim ''  '' = [] \<and> get_field ?blank ''content'' = JStr ''  '' \<and>
    outputDir_of ?cfg (folderType_of ?blank) = JStr ''out/requirements'' \<and> ''out/requirements'' \<noteq> [] \<and>
    fileName_of 0 ?blank = JStr ''a.md'' \<and> ?join ''out/requirements'' ''a.md'' \<noteq> [] \<and>
    ensureDirSync ?empty ''out/requirements'' = Inr ?made \<and> ?join ''out/requirements'' ''a.md'' \<notin> dirs ?made \<and>
    ?join ''out/requirements'' ''a.md'' \<notin> refused ?empty \<and>
    (files ?empty (?join ''out/requirements'' ''a.md'') = None \<or> truthy (overwrite_of ?blank))"
    using e w by (simp add: folderType_of_def fileName_of_def overwrite_of_def outputDir_of_def get_field_def)
  from content_guard [where args = ?none and join = ?join and cfg = ?cfg and now = 0 and fs = ?empty] t n
  have "fst (SaveDocumentTool_call ?join ?cfg 0 ?empty ?none) = Inl (SaveFailed ContentMissing)" by simp
  moreover
  from content_guard [where args = ?blank and join = ?join and cfg = ?cfg and now = 0 and fs = ?empty
      and ws = "''  ''" and d = "''out/requirements''" and f = "''a.md''" and ?fs1.0 = ?made] h
  have "SaveDocumentTool_call ?join ?cfg 0 ?empty ?blank = (Inr (Saved ''out/requirements/a.md'' False), ?after)"
    by (simp add: displayPath_def)
  ultimately show ?thesis by simp
qed

text \<open>
  Counterexample to C10 as stated: a content of three blanks, empty after trimming, is not
  rejected by the adapter; the key-value extraction returns it as it is.
\<close>

theorem blank_content_counterexample:
  "parse_traced 0 ''save_document'' (PString ''content: \"   \"'') =
     Inr (KeyValueText, JObj [(''content'', JStr ''   '')]) \<and>
   trim ''   '' = []"
  by (simp add: rx_defs str_defs json_defs parse_defs)

subsection \<open>The naming utility\<close>

lemma run_Chr_list:
  "(run [foldr Seq (map Chr (replicate n p)) Eps] s c \<noteq> None) = (n \<le> length s \<and> list_all p (take n s))"
proof (induction n arbitrary: s)
  case 0
  then show ?case by simp
next
  case (Suc n)
  show ?case
  proof (cases s)
    case Nil
    then show ?thesis by simp
  next
    case (Cons x xs)
    have "run [foldr Seq (map Chr (replicate (Suc n) p)) Eps] s c =
          (if p x then run [foldr Seq (map Chr (replicate n p)) Eps] xs c else None)"
      by (simp add: Cons)
    with Suc.IH [of xs] Cons show ?thesis by simp
  qed
qed

lemma datePattern_replicate: "datePattern = foldr Seq (map Chr (replicate 8 is_digit)) Eps"
  by (simp add: datePattern_def seqs_def eval_nat_numeral)

lemma run_datePattern:
  "(run [datePattern] s [] \<noteq> None) = (8 \<le> length s \<and> list_all is_digit (take 8 s))"
  unfolding datePattern_replicate by (rule run_Chr_list)

lemma search_None_iff:
  "(search r s = None) = (run [r] s [] = None \<and> (case s of [] \<Rightarrow> True | x # xs \<Rightarrow> search r xs = None))"
  by (cases s) (auto split: option.splits)

lemma has_date_token_Cons:
  "has_date_token (x # xs) = ((8 \<le> length (x # xs) \<and> list_all is_digit (take 8 (x # xs))) \<or> has_date_token xs)"
proof
  assume "has_date_token (x # xs)"
  then obtain pre ds suf where e: "x # xs = pre @ ds @ suf" and l: "length ds = 8" and a: "list_all is_digit ds"
    by (auto simp: has_date_token_def)
  show "(8 \<le> length (x # xs) \<and> list_all is_digit (take 8 (x # xs))) \<or> has_date_token xs"
  proof (cases pre)
    case Nil
    with e l have "take 8 (x # xs) = ds" by simp
    moreover from e l Nil have "8 \<le> length (x # xs)" by simp
    ultimately show ?thesis using a by simp
  next
    case (Cons y ys)
    with e have "xs = ys @ ds @ suf" by simp
    with l a have "has_date_token xs" unfolding has_date_token_def by blast
    then show ?thesis by simp
  qed
next
  assume "(8 \<le> length (x # xs) \<and> list_all is_digit (take 8 (x # xs))) \<or> has_date_token xs"
  then show "has_date_token (x # xs)"
  proof
    assume h: "8 \<le> length (x # xs) \<and> list_all is_digit (take 8 (x # xs))"
    have "x # xs = [] @ take 8 (x # xs) @ drop 8 (x # xs)" by simp
    moreover from h have "length (take 8 (x # xs)) = 8" by simp
    ultimately show ?thesis using h unfolding has_date_token_def by blast
  next
    assume "has_date_token xs"
    then obtain pre ds suf where "xs = pre @ ds @ suf" "length ds = 8" "list_all is_digit ds"
      by (auto simp: has_date_token_def)
    then have "x # xs = (x # pre) @ ds @ suf \<and> length ds = 8 \<and> list_all is_digit ds" by simp
    then show ?thesis unfolding has_date_token_def by blast
  qed
qed

lemma search_datePattern: "(search datePattern s \<noteq> None) = has_date_token s"
proof (induction s)
  case Nil
  have "\<not> has_date_token []" by (auto simp: has_date_token_def)
  moreover have "search datePattern [] = None"
    using run_datePattern [of "[]"] by (auto split: option.splits)
  ultimately show ?case by simp
next
  case (Cons x xs)
  have "(search datePattern (x # xs) \<noteq> None) =
        (run [datePattern] (x # xs) [] \<noteq> None \<or> search datePattern xs \<noteq> None)"
    by (auto split: option.splits)
  with Cons run_datePattern [of "x # xs"] show ?case by (simp only: has_date_token_Cons)
qed


lemma digit_char_code: "n < 10 \<Longrightarrow> (of_char (digit_char n) :: nat) = 48 + n"
proof -
  assume "n < 10"
  then have "n \<in> set [0 ..< 10]" by simp
  then have "n \<in> set [0, 1, 2, 3, 4, 5, 6, 7, 8, 9]" by (simp add: upt_rec numeral_eq_Suc)
  then show ?thesis by (auto simp: digit_char_def)
qed

lemma dec_value_snoc: "dec_value (xs @ [c]) = 10 * dec_value xs + ((of_char c :: nat) - 48)"
  by (simp add: dec_value_def)

lemma dec_value_digits_of: "dec_value (digits_of n) = n"
proof (induction n rule: digits_of.induct)
  case (1 n)
  show ?case
  proof (cases "n < 10")
    case True
    then show ?thesis
      by (subst digits_of.simps) (simp add: dec_value_def digit_char_code)
  next
    case False
    with "1.IH" have "dec_value (digits_of (n div 10)) = n div 10" by simp
    moreover have "(of_char (digit_char (n mod 10)) :: nat) = 48 + n mod 10"
      by (rule digit_char_code) simp
    ultimately show ?thesis using False
      by (subst digits_of.simps) (simp add: dec_value_snoc)
  qed
qed

lemma digits_of_inj: "digits_of a = digits_of b \<Longrightarrow> a = b"
  by (metis dec_value_digits_of)

lemma digits_of_no_minus: "CHR ''-'' \<notin> set (digits_of n)"
proof (induction n rule: digits_of.induct)
  case (1 n)
  have d: "\<And>k. k < 10 \<Longrightarrow> digit_char k \<noteq> CHR ''-''"
  proof
    fix k :: nat assume "k < 10" and "digit_char k = CHR ''-''"
    then have "(of_char (CHR ''-'') :: nat) = 48 + k" using digit_char_code [of k] by simp
    then show False by simp
  qed
  show ?case
  proof (cases "n < 10")
    case True
    then show ?thesis using d [of n] by (subst digits_of.simps) simp
  next
    case False
    with "1.IH" have "CHR ''-'' \<notin> set (digits_of (n div 10))" by simp
    moreover have "digit_char (n mod 10) \<noteq> CHR ''-''" by (rule d) simp
    ultimately show ?thesis using False by (subst digits_of.simps) simp
  qed
qed

lemma String_int_inj: "String_int i = String_int j \<Longrightarrow> i = j"
proof -
  assume e: "String_int i = String_int j"
  consider "i < 0" "j < 0" | "i < 0" "0 \<le> j" | "0 \<le> i" "j < 0" | "0 \<le> i" "0 \<le> j" by linarith
  then show ?thesis
  proof cases
    case 1
    with e have "digits_of (nat (- i)) = digits_of (nat (- j))" by (simp add: String_int_def)
    then have "nat (- i) = nat (- j)" by (rule digits_of_inj)
    with 1 show ?thesis by simp
  next
    case 2
    with e have "CHR ''-'' \<in> set (digits_of (nat j))" by (auto simp: String_int_def dest: sym)
    then show ?thesis using digits_of_no_minus by blast
  next
    case 3
    with e have "CHR ''-'' \<in> set (digits_of (nat i))" by (auto simp: String_int_def)
    then show ?thesis using digits_of_no_minus by blast
  next
    case 4
    with e have "digits_of (nat i) = digits_of (nat j)" by (simp add: String_int_def)
    then have "nat i = nat j" by (rule digits_of_inj)
    with 4 show ?thesis by simp
  qed
qed

lemma length_digits_of_small: "n < 10 \<Longrightarrow> length (digits_of n) = 1"
  by (subst digits_of.simps) simp

lemma length_digits_of_step: "10 \<le> n \<Longrightarrow> length (digits_of n) = Suc (length (digits_of (n div 10)))"
  by (subst digits_of.simps) simp

lemma length_pad: "n < 100 \<Longrightarrow> length (padStart2 (digits_of n)) = 2"
proof (cases "n < 10")
  case True
  then show ?thesis by (simp add: padStart2_def length_digits_of_small)
next
  case False
  assume "n < 100"
  with False have "n div 10 < 10" "10 \<le> n" by simp_all
  then show ?thesis by (simp add: padStart2_def length_digits_of_step length_digits_of_small)
qed

lemma dec_value_zeros: "dec_value (replicate k (CHR ''0'') @ s) = dec_value s"
  by (induction k) (simp_all add: dec_value_def)

lemma pad_inj: "padStart2 (digits_of a) = padStart2 (digits_of b) \<Longrightarrow> a = b"
proof -
  assume "padStart2 (digits_of a) = padStart2 (digits_of b)"
  then have "dec_value (padStart2 (digits_of a)) = dec_value (padStart2 (digits_of b))" by simp
  then show ?thesis by (simp add: padStart2_def dec_value_zeros dec_value_digits_of)
qed

lemma length_digits_of_4: "1000 \<le> n \<Longrightarrow> n \<le> 9999 \<Longrightarrow> length (digits_of n) = 4"
proof -
  assume a: "1000 \<le> n" "n \<le> 9999"
  then have "10 \<le> n" "10 \<le> n div 10" "10 \<le> n div 10 div 10" "n div 10 div 10 div 10 < 10" by simp_all
  then show ?thesis by (simp add: length_digits_of_step length_digits_of_small)
qed

lemma getFormattedDateTime_inj:
  assumes "valid_date a" "valid_date b" "getFormattedDateTime a = getFormattedDateTime b"
  shows "a = b"
proof -
  let ?M = "\<lambda>d. padStart2 (digits_of (getMonth d + 1))"
  let ?D = "\<lambda>d. padStart2 (digits_of (getDate d))"
  let ?h = "\<lambda>d. padStart2 (digits_of (getHours d))"
  let ?m = "\<lambda>d. padStart2 (digits_of (getMinutes d))"
  let ?s = "\<lambda>d. padStart2 (digits_of (getSeconds d))"
  let ?tail = "\<lambda>d. ?M d @ ?D d @ ''_'' @ ?h d @ ?m d @ ?s d"
  have l: "\<And>d. valid_date d \<Longrightarrow> length (?M d) = 2 \<and> length (?D d) = 2 \<and> length (?h d) = 2 \<and>
      length (?m d) = 2 \<and> length (?s d) = 2"
    by (simp add: valid_date_def length_pad)
  from assms(3) have e: "String_int (getFullYear a) @ ?tail a = String_int (getFullYear b) @ ?tail b"
    by (simp add: getFormattedDateTime_def)
  from l [OF assms(1)] l [OF assms(2)] have "length (?tail a) = length (?tail b)" by simp
  with e append_eq_append_conv [of "String_int (getFullYear a)" "String_int (getFullYear b)" "?tail a" "?tail b"]
  have y: "String_int (getFullYear a) = String_int (getFullYear b)" and t: "?tail a = ?tail b"
    by blast+
  from t l [OF assms(1)] l [OF assms(2)] have "?M a = ?M b \<and> ?D a = ?D b \<and> ?h a = ?h b \<and> ?m a = ?m b \<and> ?s a = ?s b"
    by simp
  then have "getMonth a + 1 = getMonth b + 1" "getDate a = getDate b" "getHours a = getHours b"
    "getMinutes a = getMinutes b" "getSeconds a = getSeconds b"
    by (auto dest: pad_inj)
  moreover from y have "getFullYear a = getFullYear b" by (rule String_int_inj)
  ultimately show ?thesis by simp
qed


lemma drop_stamp:
  assumes "valid_date d" "1000 \<le> getFullYear d" "getFullYear d \<le> 9999"
  shows "drop 9 (getFormattedDateTime d) =
           padStart2 (digits_of (getHours d)) @ padStart2 (digits_of (getMinutes d)) @
           padStart2 (digits_of (getSeconds d))"
proof -
  from assms have "length (String_int (getFullYear d)) = 4"
    by (simp add: String_int_def length_digits_of_4)
  moreover from assms(1) have "length (padStart2 (digits_of (getMonth d + 1))) = 2"
    "length (padStart2 (digits_of (getDate d))) = 2"
    by (simp_all add: valid_date_def length_pad)
  ultimately show ?thesis by (simp add: getFormattedDateTime_def)
qed

lemma getTimestampedFilename_eq:
  "getTimestampedFilename d baseName ext =
     (if has_date_token baseName then baseName @ drop 9 (getFormattedDateTime d) @ ''.'' @ ext
      else baseName @ ''_'' @ getFormattedDateTime d @ ''.'' @ ext)"
proof (cases "search datePattern baseName")
  case None
  with search_datePattern [of baseName] have "\<not> has_date_token baseName" by simp
  with None show ?thesis by (simp add: getTimestampedFilename_def)
next
  case (Some m)
  with search_datePattern [of baseName] have "has_date_token baseName" by simp
  with Some show ?thesis by (simp add: getTimestampedFilename_def)
qed

lemma length_digits_of_pos: "1 \<le> length (digits_of n)"
  by (subst digits_of.simps) simp

lemma length_digits_of_ge4: "1000 \<le> n \<Longrightarrow> 4 \<le> length (digits_of n)"
proof -
  assume "1000 \<le> n"
  then have "10 \<le> n" "10 \<le> n div 10" "10 \<le> n div 10 div 10" by simp_all
  then have "length (digits_of n) = Suc (Suc (Suc (length (digits_of (n div 10 div 10 div 10)))))"
    by (simp add: length_digits_of_step)
  with length_digits_of_pos [of "n div 10 div 10 div 10"] show ?thesis by simp
qed

lemma drop_inside: "n \<le> length xs \<Longrightarrow> drop n (xs @ ys) = drop n xs @ ys"
  by simp

text \<open>From the year 1000 on, the stamp from index 9 on ends with the six digits of the time of day.\<close>

lemma drop_stamp_time:
  assumes "valid_date d" "1000 \<le> getFullYear d"
  shows "\<exists>r. drop 9 (getFormattedDateTime d) =
           r @ padStart2 (digits_of (getHours d)) @ padStart2 (digits_of (getMinutes d)) @
           padStart2 (digits_of (getSeconds d))"
proof -
  let ?p = "String_int (getFullYear d) @ padStart2 (digits_of (getMonth d + 1)) @
            padStart2 (digits_of (getDate d)) @ ''_''"
  let ?t = "padStart2 (digits_of (getHours d)) @ padStart2 (digits_of (getMinutes d)) @
            padStart2 (digits_of (getSeconds d))"
  from assms(2) have "4 \<le> length (String_int (getFullYear d))"
    by (simp add: String_int_def length_digits_of_ge4)
  moreover from assms(1) have "length (padStart2 (digits_of (getMonth d + 1))) = 2"
    "length (padStart2 (digits_of (getDate d))) = 2"
    by (simp_all add: valid_date_def length_pad)
  ultimately have "9 \<le> length ?p" by simp
  then have "drop 9 (?p @ ?t) = drop 9 ?p @ ?t" by (rule drop_inside)
  moreover have "getFormattedDateTime d = ?p @ ?t" by (simp add: getFormattedDateTime_def)
  ultimately have "drop 9 (getFormattedDateTime d) = drop 9 ?p @ ?t" by simp
  then show ?thesis ..
qed

lemma dated_stamps_differ:
  assumes "valid_date d" "valid_date d'" "1000 \<le> getFullYear d" "1000 \<le> getFullYear d'"
    and "getHours d \<noteq> getHours d' \<or> getMinutes d \<noteq> getMinutes d' \<or> getSeconds d \<noteq> getSeconds d'"
  shows "drop 9 (getFormattedDateTime d) \<noteq> drop 9 (getFormattedDateTime d')"
proof
  let ?t = "\<lambda>x. padStart2 (digits_of (getHours x)) @ padStart2 (digits_of (getMinutes x)) @
            padStart2 (digits_of (getSeconds x))"
  assume e: "drop 9 (getFormattedDateTime d) = drop 9 (getFormattedDateTime d')"
  from drop_stamp_time [OF assms(1,3)] obtain r where r: "drop 9 (getFormattedDateTime d) = r @ ?t d"
    by blast
  from drop_stamp_time [OF assms(2,4)] obtain r' where r': "drop 9 (getFormattedDateTime d') = r' @ ?t d'"
    by blast
  have l: "\<And>x. valid_date x \<Longrightarrow> length (padStart2 (digits_of (getHours x))) = 2 \<and>
      length (padStart2 (digits_of (getMinutes x))) = 2 \<and> length (padStart2 (digits_of (getSeconds x))) = 2"
    by (simp add: valid_date_def length_pad)
  from l [OF assms(1)] l [OF assms(2)] have "length (?t d) = length (?t d')" by simp
  with e r r' append_eq_append_conv [of r r' "?t d" "?t d'"] have "?t d = ?t d'" by simp
  with l [OF assms(1)] l [OF assms(2)] have
    "padStart2 (digits_of (getHours d)) = padStart2 (digits_of (getHours d'))"
    "padStart2 (digits_of (getMinutes d)) = padStart2 (digits_of (getMinutes d'))"
    "padStart2 (digits_of (getSeconds d)) = padStart2 (digits_of (getSeconds d'))"
    by simp_all
  then have "getHours d = getHours d'" "getMinutes d = getMinutes d'" "getSeconds d = getSeconds d'"
    by (auto dest: pad_inj)
  with assms(5) show False by simp
qed

text \<open>
  C8, as the code has it. When the base name contains 8 contiguous digits, only the date-time
  stamp from index 9 on is appended, which for a year of four digits is the time of day
  \<open>HHMMSS\<close>; otherwise an underscore and the whole stamp are appended, before the dot and
  the extension. Two calls with the same base name produce different stamps and different
  names when the base name has no such token and the two dates differ in any field, and
  also when it has one and the two dates, from the year 1000 on, differ in the hour, the
  minute or the second.
\<close>

theorem timestamped_name:
  "(has_date_token baseName \<longrightarrow>
      getTimestampedFilename d baseName ext = baseName @ drop 9 (getFormattedDateTime d) @ ''.'' @ ext) \<and>
   (has_date_token baseName \<and> valid_date d \<and> 1000 \<le> getFullYear d \<and> getFullYear d \<le> 9999 \<longrightarrow>
      getTimestampedFilename d baseName ext =
        baseName @ padStart2 (digits_of (getHours d)) @ padStart2 (digits_of (getMinutes d)) @
        padStart2 (digits_of (getSeconds d)) @ ''.'' @ ext) \<and>
   (\<not> has_date_token baseName \<longrightarrow>
      getTimestampedFilename d baseName ext = baseName @ ''_'' @ getFormattedDateTime d @ ''.'' @ ext) \<and>
   (\<not> has_date_token baseName \<and> valid_date d \<and> valid_date d' \<and> d \<noteq> d' \<longrightarrow>
      getFormattedDateTime d \<noteq> getFormattedDateTime d' \<and>
      getTimestampedFilename d baseName ext \<noteq> getTimestampedFilename d' baseName ext) \<and>
   (has_date_token baseName \<and> valid_date d \<and> valid_date d' \<and>
    1000 \<le> getFullYear d \<and> 1000 \<le> getFullYear d' \<and>
    (getHours d \<noteq> getHours d' \<or> getMinutes d \<noteq> getMinutes d' \<or> getSeconds d \<noteq> getSeconds d') \<longrightarrow>
      drop 9 (getFormattedDateTime d) \<noteq> drop 9 (getFormattedDateTime d') \<and>
      getTimestampedFilename d baseName ext \<noteq> getTimestampedFilename d' baseName ext)"
proof (intro conjI impI)
  assume "has_date_token baseName"
  then show "getTimestampedFilename d baseName ext = baseName @ drop 9 (getFormattedDateTime d) @ ''.'' @ ext"
    by (simp add: getTimestampedFilename_eq)
next
  assume a: "has_date_token baseName \<and> valid_date d \<and> 1000 \<le> getFullYear d \<and> getFullYear d \<le> 9999"
  then have "drop 9 (getFormattedDateTime d) =
           padStart2 (digits_of (getHours d)) @ padStart2 (digits_of (getMinutes d)) @
           padStart2 (digits_of (getSeconds d))" by (simp add: drop_stamp)
  with a show "getTimestampedFilename d baseName ext =
        baseName @ padStart2 (digits_of (getHours d)) @ padStart2 (digits_of (getMinutes d)) @
        padStart2 (digits_of (getSeconds d)) @ ''.'' @ ext"
    by (simp add: getTimestampedFilename_eq)
next
  assume "\<not> has_date_token baseName"
  then show "getTimestampedFilename d baseName ext = baseName @ ''_'' @ getFormattedDateTime d @ ''.'' @ ext"
    by (simp add: getTimestampedFilename_eq)
next
  assume a: "\<not> has_date_token baseName \<and> valid_date d \<and> valid_date d' \<and> d \<noteq> d'"
  then show "getFormattedDateTime d \<noteq> getFormattedDateTime d'"
    using getFormattedDateTime_inj [of d d'] by blast
next
  assume a: "\<not> has_date_token baseName \<and> valid_date d \<and> valid_date d' \<and> d \<noteq> d'"
  then have "getFormattedDateTime d \<noteq> getFormattedDateTime d'"
    using getFormattedDateTime_inj [of d d'] by blast
  with a show "getTimestampedFilename d baseName ext \<noteq> getTimestampedFilename d' baseName ext"
    by (simp add: getTimestampedFilename_eq)
next
  assume a: "has_date_token baseName \<and> valid_date d \<and> valid_date d' \<and>
    1000 \<le> getFullYear d \<and> 1000 \<le> getFullYear d' \<and>
    (getHours d \<noteq> getHours d' \<or> getMinutes d \<noteq> getMinutes d' \<or> getSeconds d \<noteq> getSeconds d')"
  then show "drop 9 (getFormattedDateTime d) \<noteq> drop 9 (getFormattedDateTime d')"
    by (intro dated_stamps_differ) simp_all
next
  assume a: "has_date_token baseName \<and> valid_date d \<and> valid_date d' \<and>
    1000 \<le> getFullYear d \<and> 1000 \<le> getFullYear d' \<and>
    (getHours d \<noteq> getHours d' \<or> getMinutes d \<noteq> getMinutes d' \<or> getSeconds d \<noteq> getSeconds d')"
  then have "drop 9 (getFormattedDateTime d) \<noteq> drop 9 (getFormattedDateTime d')"
    by (intro dated_stamps_differ) simp_all
  with a show "getTimestampedFilename d baseName ext \<noteq> getTimestampedFilename d' baseName ext"
    by (simp add: getTimestampedFilename_eq)
qed

text \<open>
  Witness of C8: a base name with a date at two moments a second apart, and one without a
  date at the same two moments.
\<close>

theorem timestamped_name_witness:
  "getTimestampedFilename
     \<lparr>getFullYear = 2024, getMonth = 0, getDate = 1, getHours = 10, getMinutes = 0, getSeconds = 0\<rparr>
     ''report20240101'' ''md'' = ''report20240101100000.md'' \<and>
   getTimestampedFilename
     \<lparr>getFullYear = 2024, getMonth = 0, getDate = 1, getHours = 10, getMinutes = 0, getSeconds = 1\<rparr>
     ''report20240101'' ''md'' = ''report20240101100001.md'' \<and>
   getTimestampedFilename
     \<lparr>getFullYear = 2024, getMonth = 0, getDate = 1, getHours = 10, getMinutes = 0, getSeconds = 0\<rparr>
     ''report'' ''md'' = ''report_20240101_100000.md'' \<and>
   getTimestampedFilename
     \<lparr>getFullYear = 2024, getMonth = 0, getDate = 1, getHours = 10, getMinutes = 0, getSeconds = 1\<rparr>
     ''report'' ''md'' = ''report_20240101_100001.md''"
proof -
  let ?a = "\<lparr>getFullYear = 2024, getMonth = 0, getDate = 1, getHours = 10, getMinutes = 0, getSeconds = 0\<rparr>"
  let ?b = "\<lparr>getFullYear = 2024, getMonth = 0, getDate = 1, getHours = 10, getMinutes = 0, getSeconds = 1\<rparr>"
  have t: "has_date_token ''report20240101''"
    unfolding search_datePattern [symmetric] by (simp add: rx_defs datePattern_def)
  have n: "\<not> has_date_token ''report''"
    unfolding search_datePattern [symmetric] by (simp add: rx_defs datePattern_def)
  have v: "valid_date ?a" "valid_date ?b" "?a \<noteq> ?b" "1000 \<le> getFullYear ?a" "getFullYear ?a \<le> 9999"
    "1000 \<le> getFullYear ?b" "getSeconds ?a \<noteq> getSeconds ?b"
    by (simp_all add: valid_date_def)
  have e: "getTimestampedFilename ?a ''report20240101'' ''md'' = ''report20240101100000.md''"
    "getTimestampedFilename ?b ''report20240101'' ''md'' = ''report20240101100001.md''"
    "getTimestampedFilename ?a ''report'' ''md'' = ''report_20240101_100000.md''"
    "getTimestampedFilename ?b ''report'' ''md'' = ''report_20240101_100001.md''"
    by (simp_all add: rx_defs str_defs date_defs)
  from timestamped_name [of "''report20240101''" ?a "''md''" ?b] t v
    timestamped_name [of "''report''" ?a "''md''" ?b] n v e
  show ?thesis by simp
qed

text \<open>
  Counterexample to C8 as stated: with a base name that carries a date, two calls at ten
  o'clock on two different days append the same stamp and give the same name.
\<close>

theorem same_time_other_day_counterexample:
  "getTimestampedFilename
     \<lparr>getFullYear = 2024, getMonth = 0, getDate = 1, getHours = 10, getMinutes = 0, getSeconds = 0\<rparr>
     ''report20240101'' ''md'' = ''report20240101100000.md'' \<and>
   getTimestampedFilename
     \<lparr>getFullYear = 2024, getMonth = 0, getDate = 2, getHours = 10, getMinutes = 0, getSeconds = 0\<rparr>
     ''report20240101'' ''md'' = ''report20240101100000.md'' \<and>
   getFormattedDateTime
     \<lparr>getFullYear = 2024, getMonth = 0, getDate = 1, getHours = 10, getMinutes = 0, getSeconds = 0\<rparr>
     = ''20240101_100000'' \<and>
   getFormattedDateTime
     \<lparr>getFullYear = 2024, getMonth = 0, getDate = 2, getHours = 10, getMinutes = 0, getSeconds = 0\<rparr>
     = ''20240102_100000''"
  by (simp add: rx_defs str_defs date_defs)

end
